theory Spec2Isabelle
  imports Complex_Main "HOL-Library.List_Lexorder" "HOL-Library.Product_Lexorder"
begin

section \<open>Python values the source relies on\<close>

text \<open>
  The exceptions that \<^verbatim>\<open>Group.py\<close> raises or lets through.  \<open>EmptyPick\<close> stands
  for whatever \<^verbatim>\<open>AlgSet.pick\<close> does on an empty set, \<open>OverflowError\<close> for an integer
  too large for Python's true division.
\<close>

datatype error = TypeError | ValueError | RuntimeError | KeyError | OverflowError | EmptyPick

text \<open>Sequencing of fallible steps: the first exception wins.\<close>

definition bind_e :: "error + 'a \<Rightarrow> ('a \<Rightarrow> error + 'b) \<Rightarrow> error + 'b" where
  "bind_e m f = (case m of Inl err \<Rightarrow> Inl err | Inr v \<Rightarrow> f v)"

text \<open>
  \<^verbatim>\<open>all(p(x) for x in xs)\<close> and \<^verbatim>\<open>any(p(x) for x in xs)\<close> over a generator whose
  items may raise: evaluation is left to right and stops at the first item that
  decides the answer or raises.
\<close>

fun all_e :: "('x \<Rightarrow> error + bool) \<Rightarrow> 'x list \<Rightarrow> error + bool" where
  "all_e p [] = Inr True"
| "all_e p (x # xs) =
     (case p x of Inl err \<Rightarrow> Inl err | Inr b \<Rightarrow> if b then all_e p xs else Inr False)"

fun any_e :: "('x \<Rightarrow> error + bool) \<Rightarrow> 'x list \<Rightarrow> error + bool" where
  "any_e p [] = Inr False"
| "any_e p (x # xs) =
     (case p x of Inl err \<Rightarrow> Inl err | Inr b \<Rightarrow> if b then Inr True else any_e p xs)"

text \<open>A comprehension \<^verbatim>\<open>[f(x) for x in xs]\<close> whose items may raise.\<close>

fun map_e :: "('x \<Rightarrow> error + 'y) \<Rightarrow> 'x list \<Rightarrow> error + 'y list" where
  "map_e f [] = Inr []"
| "map_e f (x # xs) =
     (case f x of Inl err \<Rightarrow> Inl err
      | Inr y \<Rightarrow> (case map_e f xs of Inl err \<Rightarrow> Inl err | Inr ys \<Rightarrow> Inr (y # ys)))"

section \<open>AlgSet\<close>

text \<open>
  Modelled from the spec: the class \<^verbatim>\<open>AlgSet\<close> of \<^verbatim>\<open>abstracta/Set.py\<close>, which is
  not among the sources.  The spec describes an immutable, unordered, deduplicated
  collection with value equality and an implementation-defined but stable iteration
  order.  The model is a list without duplicates in ascending order of a linear order
  on the elements: the list order is the iteration order, and two sets with the same
  elements are the same list, so that sets can be elements of sets (the cosets of a
  quotient group) and be compared by \<open>=\<close>.
\<close>

type_synonym 'a AlgSet = "'a list"

definition AlgSet :: "'a::linorder list \<Rightarrow> 'a AlgSet" where
  "AlgSet xs = sort (remdups xs)"

text \<open>\<^verbatim>\<open>A == B\<close>, \<^verbatim>\<open>A <= B\<close>, \<^verbatim>\<open>A * B\<close>, \<^verbatim>\<open>A | B\<close>, \<^verbatim>\<open>A - B\<close> and \<^verbatim>\<open>A.pick()\<close>.\<close>

definition AlgSet_eq :: "'a AlgSet \<Rightarrow> 'a AlgSet \<Rightarrow> bool" where
  "AlgSet_eq A B = (set A = set B)"

definition AlgSet_le :: "'a AlgSet \<Rightarrow> 'a AlgSet \<Rightarrow> bool" where
  "AlgSet_le A B = (set A \<subseteq> set B)"

definition AlgSet_mul :: "'a::linorder AlgSet \<Rightarrow> 'b::linorder AlgSet \<Rightarrow> ('a \<times> 'b) AlgSet" where
  "AlgSet_mul A B = AlgSet (List.product A B)"

definition AlgSet_or :: "'a::linorder AlgSet \<Rightarrow> 'a AlgSet \<Rightarrow> 'a AlgSet" where
  "AlgSet_or A B = AlgSet (A @ B)"

definition AlgSet_sub :: "'a::linorder AlgSet \<Rightarrow> 'a AlgSet \<Rightarrow> 'a AlgSet" where
  "AlgSet_sub A B = AlgSet (filter (\<lambda>x. x \<notin> set B) A)"

definition pick :: "'a AlgSet \<Rightarrow> error + 'a" where
  "pick A = (case A of [] \<Rightarrow> Inl EmptyPick | x # _ \<Rightarrow> Inr x)"

section \<open>Function\<close>

text \<open>
  Modelled from the spec: the class \<^verbatim>\<open>Function\<close> of \<^verbatim>\<open>abstracta/Function.py\<close>,
  which is not among the sources.  A function object is a domain, a codomain and a
  rule; construction does not check that the rule stays inside the codomain (the spec:
  "lazily checkable, not eagerly enforced at construction").  Calling it outside its
  domain raises \<^verbatim>\<open>TypeError\<close>, as the comment in \<^verbatim>\<open>GroupElem.__mul__\<close> records.
\<close>

record ('a, 'b) Function =
  domain :: "'a AlgSet"
  codomain :: "'b AlgSet"
  func :: "'a \<Rightarrow> 'b"

definition Function_call :: "('a, 'b) Function \<Rightarrow> 'a \<Rightarrow> error + 'b" where
  "Function_call f x = (if x \<in> set (domain f) then Inr (func f x) else Inl TypeError)"

definition new_domains :: "('a, 'b) Function \<Rightarrow> 'a AlgSet \<Rightarrow> 'b AlgSet \<Rightarrow> ('a, 'b) Function" where
  "new_domains f d c = \<lparr>domain = d, codomain = c, func = func f\<rparr>"


section \<open>Sets of objects that are compared through a key\<close>

text \<open>
  \<^verbatim>\<open>GroupElem.__eq__\<close> and \<^verbatim>\<open>__hash__\<close> look at \<^verbatim>\<open>self.elem\<close> only, so a set
  of wrapped elements holds at most one object for each underlying value: the one
  inserted first.  \<open>AlgSet_by key xs\<close> is the set built from the iterable \<open>xs\<close> of
  objects that are equal when their keys are.
\<close>

fun dedup_by :: "('b \<Rightarrow> 'a) \<Rightarrow> 'b list \<Rightarrow> 'b list" where
  "dedup_by key [] = []"
| "dedup_by key (x # xs) = x # dedup_by key (filter (\<lambda>y. key y \<noteq> key x) xs)"

definition AlgSet_by :: "('b \<Rightarrow> 'a::linorder) \<Rightarrow> 'b list \<Rightarrow> 'b AlgSet" where
  "AlgSet_by key xs = sort_key key (dedup_by key xs)"

definition AlgSet_by_eq :: "('b \<Rightarrow> 'a) \<Rightarrow> 'b AlgSet \<Rightarrow> 'b AlgSet \<Rightarrow> bool" where
  "AlgSet_by_eq key A B = (key ` set A = key ` set B)"

definition AlgSet_by_le :: "('b \<Rightarrow> 'a) \<Rightarrow> 'b AlgSet \<Rightarrow> 'b AlgSet \<Rightarrow> bool" where
  "AlgSet_by_le key A B = (key ` set A \<subseteq> key ` set B)"

definition AlgSet_by_or :: "('b \<Rightarrow> 'a::linorder) \<Rightarrow> 'b AlgSet \<Rightarrow> 'b AlgSet \<Rightarrow> 'b AlgSet" where
  "AlgSet_by_or key A B = AlgSet_by key (A @ B)"

section \<open>Group and GroupElem: the data\<close>

text \<open>
  A \<^verbatim>\<open>Group\<close> object holds \<^verbatim>\<open>Set\<close>, \<^verbatim>\<open>bin_op\<close>, the identity \<^verbatim>\<open>e\<close> and the
  cached flag \<^verbatim>\<open>abelian\<close>.  The source stores the identity and \<^verbatim>\<open>group_elems\<close> as
  wrapped elements that point back to the group; the record keeps the raw identity,
  and \<open>Group_e\<close> and \<open>group_elems\<close> below wrap on demand.
\<close>

record 'a Group =
  Set :: "'a AlgSet"
  bin_op :: "('a \<times> 'a, 'a) Function"
  e :: 'a
  abelian :: bool

record 'a GroupElem =
  elem :: 'a
  group :: "'a Group"

text \<open>\<^verbatim>\<open>GroupElem.__init__\<close>: an element that is not in the group's set is refused.\<close>

definition GroupElem_init :: "'a \<Rightarrow> 'a Group \<Rightarrow> error + 'a GroupElem" where
  "GroupElem_init x G =
     (if x \<notin> set (Set G) then Inl TypeError else Inr \<lparr>elem = x, group = G\<rparr>)"

text \<open>\<^verbatim>\<open>GroupElem.__eq__\<close> and \<^verbatim>\<open>__ne__\<close>.\<close>

definition GroupElem_eq :: "'a GroupElem \<Rightarrow> 'a GroupElem \<Rightarrow> bool" where
  "GroupElem_eq a b = (elem a = elem b)"

definition GroupElem_ne :: "'a GroupElem \<Rightarrow> 'a GroupElem \<Rightarrow> bool" where
  "GroupElem_ne a b = (\<not> GroupElem_eq a b)"

text \<open>
  \<^verbatim>\<open>GroupElem.__rmul__\<close> and \<^verbatim>\<open>GroupElem.__mul__\<close> for two wrapped elements.
  \<^verbatim>\<open>__mul__\<close> multiplies in the group of its left operand; when that raises
  \<^verbatim>\<open>TypeError\<close> it retries in the group of its right operand.
\<close>

definition GroupElem_rmul :: "'a GroupElem \<Rightarrow> 'a GroupElem \<Rightarrow> error + 'a GroupElem" where
  "GroupElem_rmul self other =
     bind_e (Function_call (bin_op (group self)) (elem other, elem self))
       (\<lambda>v. GroupElem_init v (group self))"

definition GroupElem_mul :: "'a GroupElem \<Rightarrow> 'a GroupElem \<Rightarrow> error + 'a GroupElem" where
  "GroupElem_mul self other =
     (case bind_e (Function_call (bin_op (group self)) (elem self, elem other))
             (\<lambda>v. GroupElem_init v (group self)) of
        Inr g \<Rightarrow> Inr g
      | Inl err \<Rightarrow> if err = TypeError then GroupElem_rmul other self else Inl err)"

text \<open>\<^verbatim>\<open>self.e\<close>, \<^verbatim>\<open>self.group_elems\<close>, \<^verbatim>\<open>len(self)\<close> and \<^verbatim>\<open>item in self\<close>.\<close>

definition Group_e :: "'a Group \<Rightarrow> 'a GroupElem" where
  "Group_e G = \<lparr>elem = e G, group = G\<rparr>"

definition group_elems :: "'a::linorder Group \<Rightarrow> 'a GroupElem AlgSet" where
  "group_elems G = AlgSet_by elem (map (\<lambda>g. \<lparr>elem = g, group = G\<rparr>) (Set G))"

definition Group_len :: "'a Group \<Rightarrow> nat" where
  "Group_len G = length (Set G)"

definition Group_contains :: "'a::linorder Group \<Rightarrow> 'a GroupElem \<Rightarrow> bool" where
  "Group_contains G item = (elem item \<in> elem ` set (group_elems G))"

section \<open>Group construction\<close>

text \<open>The associativity test of \<^verbatim>\<open>Group.__init__\<close> at one triple.\<close>

definition assoc_at :: "('a \<times> 'a, 'a) Function \<Rightarrow> 'a \<times> 'a \<times> 'a \<Rightarrow> error + bool" where
  "assoc_at f = (\<lambda>(a, b, c).
     bind_e (Function_call f (b, c)) (\<lambda>bc.
     bind_e (Function_call f (a, bc)) (\<lambda>l.
     bind_e (Function_call f (a, b)) (\<lambda>ab.
     bind_e (Function_call f (ab, c)) (\<lambda>r. Inr (l = r))))))"

text \<open>The search \<^verbatim>\<open>for e in G: if all(bin_op((e, a)) == a for a in G): ... break\<close>.\<close>

fun find_identity :: "('a \<times> 'a, 'a) Function \<Rightarrow> 'a list \<Rightarrow> 'a list \<Rightarrow> error + 'a option" where
  "find_identity f G [] = Inr None"
| "find_identity f G (x # xs) =
     (case all_e (\<lambda>a. bind_e (Function_call f (x, a)) (\<lambda>v. Inr (v = a))) G of
        Inl err \<Rightarrow> Inl err
      | Inr b \<Rightarrow> if b then Inr (Some x) else find_identity f G xs)"

text \<open>
  The test for inverses, \<^verbatim>\<open>for a in G: if not any(bin_op((a, b)) == e for b in G)\<close>,
  and the commutativity flag,
  \<^verbatim>\<open>all(bin_op((a, b)) == bin_op((b, a)) for a, b in itertools.product(G, G))\<close>.
\<close>

definition has_inverses :: "('a \<times> 'a, 'a) Function \<Rightarrow> 'a list \<Rightarrow> 'a \<Rightarrow> error + bool" where
  "has_inverses f G e0 =
     all_e (\<lambda>a. any_e (\<lambda>b. bind_e (Function_call f (a, b)) (\<lambda>v. Inr (v = e0))) G) G"

definition commutes_at :: "('a \<times> 'a, 'a) Function \<Rightarrow> 'a \<times> 'a \<Rightarrow> error + bool" where
  "commutes_at f = (\<lambda>(a, b).
     bind_e (Function_call f (a, b)) (\<lambda>l.
     bind_e (Function_call f (b, a)) (\<lambda>r. Inr (l = r))))"

text \<open>
  \<^verbatim>\<open>Group.__init__\<close> on an \<^verbatim>\<open>AlgSet\<close> and a \<^verbatim>\<open>Function\<close>: the two tests of the
  operation's codomain and domain, associativity, the identity, the inverses, and the
  cached commutativity flag.
\<close>

definition Group_init :: "'a::linorder AlgSet \<Rightarrow> ('a \<times> 'a, 'a) Function \<Rightarrow> error + 'a Group" where
  "Group_init G f =
     (if \<not> AlgSet_eq (codomain f) G then Inl TypeError
      else if \<not> AlgSet_eq (domain f) (AlgSet_mul G G) then Inl TypeError
      else bind_e (all_e (assoc_at f) (List.product G (List.product G G))) (\<lambda>associative.
        if \<not> associative then Inl ValueError
        else bind_e (find_identity f G G) (\<lambda>found.
          (case found of
             None \<Rightarrow> Inl ValueError
           | Some e0 \<Rightarrow>
               bind_e (has_inverses f G e0) (\<lambda>inverses.
                 if \<not> inverses then Inl ValueError
                 else bind_e (all_e (commutes_at f) (List.product G G)) (\<lambda>ab.
                   Inr \<lparr>Set = G, bin_op = f, e = e0, abelian = ab\<rparr>))))))"

text \<open>
  The two \<^verbatim>\<open>isinstance\<close> tests that open \<^verbatim>\<open>Group.__init__\<close>, on arguments of any
  Python type.
\<close>

datatype 'a pyarg = PyAlgSet "'a AlgSet" | PyFunction "('a \<times> 'a, 'a) Function" | PyOther

definition Group_new :: "'a::linorder pyarg \<Rightarrow> 'a pyarg \<Rightarrow> error + 'a Group" where
  "Group_new G f =
     (case G of
        PyAlgSet S \<Rightarrow> (case f of PyFunction op \<Rightarrow> Group_init S op | _ \<Rightarrow> Inl TypeError)
      | _ \<Rightarrow> Inl TypeError)"

text \<open>\<^verbatim>\<open>Group.__iter__\<close>: the identity, then every other element of \<^verbatim>\<open>group_elems\<close>.\<close>

definition Group_iter :: "'a::linorder Group \<Rightarrow> 'a GroupElem list" where
  "Group_iter G = Group_e G # filter (\<lambda>g. GroupElem_ne g (Group_e G)) (group_elems G)"

text \<open>
  \<^verbatim>\<open>Group.inverse\<close>: the first element \<open>a\<close> of the iteration with
  \<^verbatim>\<open>g * a == self.e\<close>.
\<close>

fun first_inverse :: "'a GroupElem \<Rightarrow> 'a GroupElem \<Rightarrow> 'a GroupElem list \<Rightarrow> error + 'a GroupElem" where
  "first_inverse g u [] = Inl RuntimeError"
| "first_inverse g u (a # as) =
     (case GroupElem_mul g a of
        Inl err \<Rightarrow> Inl err
      | Inr p \<Rightarrow> if GroupElem_eq p u then Inr a else first_inverse g u as)"

definition Group_inverse :: "'a::linorder Group \<Rightarrow> 'a GroupElem \<Rightarrow> error + 'a GroupElem" where
  "Group_inverse G g =
     (if \<not> Group_contains G g then Inl TypeError
      else first_inverse g (Group_e G) (Group_iter G))"

section \<open>Powers of a wrapped element\<close>

text \<open>
  The exponent of \<^verbatim>\<open>GroupElem.__pow__\<close> is any Python object; the method tells an
  \<^verbatim>\<open>int\<close> from everything else.  \<open>PyFloat\<close> is a float, whose value the method
  never reads.  \<open>truediv_2 n\<close> is the expression \<^verbatim>\<open>n / 2\<close> on an \<^verbatim>\<open>int\<close>: Python 3
  divides exactly and returns a float, or raises \<^verbatim>\<open>OverflowError\<close> when the quotient
  rounds to \<open>2 ^ 1024\<close> or more.
\<close>

datatype pynum = PyInt int | PyFloat

definition truediv_2 :: "int \<Rightarrow> error + pynum" where
  "truediv_2 n = (if 2 ^ 1025 - 2 ^ 971 \<le> \<bar>n\<bar> then Inl OverflowError else Inr PyFloat)"

function GroupElem_pow :: "'a::linorder GroupElem \<Rightarrow> pynum \<Rightarrow> error + 'a GroupElem" where
  "GroupElem_pow self PyFloat = Inl TypeError"
| "GroupElem_pow self (PyInt n) =
     (if n = 0 then Inr (Group_e (group self))
      else if n < 0 then
        (case Group_inverse (group self) self of
           Inl err \<Rightarrow> Inl err
         | Inr i \<Rightarrow> GroupElem_pow i (PyInt (- n)))
      else if n mod 2 = 1 then
        (case GroupElem_pow self (PyInt (n - 1)) of
           Inl err \<Rightarrow> Inl err
         | Inr p \<Rightarrow> GroupElem_mul self p)
      else
        (case GroupElem_mul self self of
           Inl err \<Rightarrow> Inl err
         | Inr s \<Rightarrow> (case truediv_2 n of Inl err \<Rightarrow> Inl err | Inr m \<Rightarrow> GroupElem_pow s m)))"
  by pat_completeness auto
termination
  by (relation "measure (\<lambda>(self, n). case n of PyFloat \<Rightarrow> 0
         | PyInt k \<Rightarrow> if k < 0 then nat (- k) + 2 else nat k + 1)")
     (auto simp: truediv_2_def split: if_splits)

section \<open>Standard groups\<close>

text \<open>\<^verbatim>\<open>Zn(n)\<close>, the integers modulo \<open>n\<close> under addition.\<close>

definition Zn :: "nat \<Rightarrow> error + nat Group" where
  "Zn n = (let G = AlgSet [0..<n] in
     Group_init G \<lparr>domain = AlgSet_mul G G, codomain = G, func = (\<lambda>x. (fst x + snd x) mod n)\<rparr>)"

section \<open>Validity\<close>

text \<open>
  Every \<^verbatim>\<open>AlgSet\<close> object satisfies \<open>is_AlgSet\<close>.  A valid \<^verbatim>\<open>Group\<close> is an object
  that \<^verbatim>\<open>Group.__init__\<close> has built from an \<^verbatim>\<open>AlgSet\<close> and whose identity is an
  identity on both sides, so that set and operation form a group.
\<close>

definition is_AlgSet :: "'a::linorder list \<Rightarrow> bool" where
  "is_AlgSet A = (sorted A \<and> distinct A)"

definition valid_Group :: "'a::linorder Group \<Rightarrow> bool" where
  "valid_Group G =
     (is_AlgSet (Set G) \<and> Group_init (Set G) (bin_op G) = Inr G \<and>
      (\<forall>a\<in>set (Set G). func (bin_op G) (a, e G) = a))"

text \<open>
  The group axioms for a carrier, an operation on pairs and an identity: the carrier is
  closed, the operation associative, the identity neutral on both sides, and every
  element has an inverse.
\<close>

definition group_on :: "'a set \<Rightarrow> ('a \<times> 'a \<Rightarrow> 'a) \<Rightarrow> 'a \<Rightarrow> bool" where
  "group_on S m u =
     (finite S \<and> u \<in> S \<and> (\<forall>a\<in>S. \<forall>b\<in>S. m (a, b) \<in> S) \<and>
      (\<forall>a\<in>S. \<forall>b\<in>S. \<forall>c\<in>S. m (a, m (b, c)) = m (m (a, b), c)) \<and>
      (\<forall>a\<in>S. m (u, a) = a \<and> m (a, u) = a) \<and>
      (\<forall>a\<in>S. \<exists>b\<in>S. m (a, b) = u \<and> m (b, a) = u))"

text \<open>The group that \<^verbatim>\<open>Zn(n)\<close> returns for a positive \<open>n\<close>.\<close>

definition Zn_Group :: "nat \<Rightarrow> nat Group" where
  "Zn_Group n = \<lparr>Set = [0..<n],
     bin_op = \<lparr>domain = AlgSet_mul [0..<n] [0..<n], codomain = [0..<n],
                func = (\<lambda>x. (fst x + snd x) mod n)\<rparr>,
     e = 0, abelian = True\<rparr>"

text \<open>
  A set with an operation that is not a group: on \<open>{0, 1}\<close>, \<open>a * b = b\<close>.  Every
  element is a left identity and none is a right identity.
\<close>

definition right_zero_op :: "(nat \<times> nat, nat) Function" where
  "right_zero_op = \<lparr>domain = AlgSet_mul [0, 1] [0, 1], codomain = [0, 1], func = snd\<rparr>"

section \<open>Basic facts\<close>

lemma bind_e_Inr [simp]: "bind_e (Inr v) f = f v"
  by (simp add: bind_e_def)

lemma bind_e_Inl [simp]: "bind_e (Inl x) f = Inl x"
  by (simp add: bind_e_def)

lemma bind_e_eq_Inr: "bind_e m f = Inr y \<longleftrightarrow> (\<exists>v. m = Inr v \<and> f v = Inr y)"
  by (cases m) simp_all

lemma all_e_True: "all_e p xs = Inr True \<longleftrightarrow> (\<forall>x\<in>set xs. p x = Inr True)"
  by (induction xs) (auto split: sum.splits)

lemma all_e_pure: "(\<And>x. x \<in> set xs \<Longrightarrow> p x = Inr (q x)) \<Longrightarrow> all_e p xs = Inr (\<forall>x\<in>set xs. q x)"
  by (induction xs) auto

lemma any_e_pure: "(\<And>x. x \<in> set xs \<Longrightarrow> p x = Inr (q x)) \<Longrightarrow> any_e p xs = Inr (\<exists>x\<in>set xs. q x)"
  by (induction xs) auto

lemma any_e_True: "any_e p xs = Inr True \<Longrightarrow> \<exists>x\<in>set xs. p x = Inr True"
  by (induction xs) (auto split: sum.splits if_splits)

lemma map_e_pure: "(\<And>x. x \<in> set xs \<Longrightarrow> f x = Inr (g x)) \<Longrightarrow> map_e f xs = Inr (map g xs)"
  by (induction xs) auto

lemma set_AlgSet [simp]: "set (AlgSet xs) = set xs"
  by (simp add: AlgSet_def)

lemma sorted_AlgSet [simp]: "sorted (AlgSet xs)"
  by (simp add: AlgSet_def)

lemma distinct_AlgSet [simp]: "distinct (AlgSet xs)"
  by (simp add: AlgSet_def)

lemma AlgSet_unique: "sorted xs \<Longrightarrow> distinct xs \<Longrightarrow> set xs = set ys \<Longrightarrow> AlgSet ys = xs"
  by (rule sorted_distinct_set_unique) simp_all

lemma AlgSet_cong: "set xs = set ys \<Longrightarrow> AlgSet xs = AlgSet ys"
  by (rule sorted_distinct_set_unique) simp_all

lemma set_AlgSet_mul [simp]: "set (AlgSet_mul A B) = set A \<times> set B"
  by (simp add: AlgSet_mul_def)

lemma Function_call_in: "x \<in> set (domain f) \<Longrightarrow> Function_call f x = Inr (func f x)"
  by (simp add: Function_call_def)

lemma Function_call_eq_Inr: "Function_call f x = Inr y \<longleftrightarrow> x \<in> set (domain f) \<and> y = func f x"
  by (auto simp: Function_call_def)

lemma find_identity_Some:
  "find_identity f G xs = Inr (Some u) \<Longrightarrow>
     u \<in> set xs \<and> all_e (\<lambda>a. bind_e (Function_call f (u, a)) (\<lambda>v. Inr (v = a))) G = Inr True"
  by (induction xs) (auto split: sum.splits if_splits)

lemma find_identity_pure:
  "(\<And>x a. x \<in> set xs \<Longrightarrow> a \<in> set G \<Longrightarrow> (x, a) \<in> set (domain f)) \<Longrightarrow>
   find_identity f G xs = Inr (find (\<lambda>x. \<forall>a\<in>set G. func f (x, a) = a) xs)"
proof (induction xs)
  case Nil
  then show ?case by simp
next
  case (Cons x xs)
  have "all_e (\<lambda>a. bind_e (Function_call f (x, a)) (\<lambda>v. Inr (v = a))) G
        = Inr (\<forall>a\<in>set G. func f (x, a) = a)"
    by (rule all_e_pure) (simp add: Function_call_in Cons.prems)
  with Cons show ?case by simp
qed

lemma assoc_at_True:
  assumes "assoc_at f (a, b, c) = Inr True"
  shows "(b, c) \<in> set (domain f)" "(a, func f (b, c)) \<in> set (domain f)"
    "(a, b) \<in> set (domain f)" "(func f (a, b), c) \<in> set (domain f)"
    "func f (a, func f (b, c)) = func f (func f (a, b), c)"
  using assms by (auto simp: assoc_at_def bind_e_eq_Inr Function_call_eq_Inr)

lemma assoc_at_pure:
  assumes "(b, c) \<in> set (domain f)" "(a, func f (b, c)) \<in> set (domain f)"
    "(a, b) \<in> set (domain f)" "(func f (a, b), c) \<in> set (domain f)"
  shows "assoc_at f (a, b, c) = Inr (func f (a, func f (b, c)) = func f (func f (a, b), c))"
  using assms by (simp add: assoc_at_def Function_call_in)

lemma find_unique:
  assumes "u \<in> set xs" "P u" "\<And>x. x \<in> set xs \<Longrightarrow> P x \<Longrightarrow> x = u"
  shows "find P xs = Some u"
  using assms
proof (induction xs)
  case Nil
  then show ?case by simp
next
  case (Cons x xs)
  show ?case
  proof (cases "P x")
    case True
    then have "x = u" using Cons.prems(3)[of x] by simp
    with True show ?thesis by simp
  next
    case False
    with Cons.prems(1,2) have "u \<in> set xs" by auto
    then have "find P xs = Some u"
      using Cons.prems(2,3) by (intro Cons.IH) simp_all
    with False show ?thesis by simp
  qed
qed

lemma has_inverses_pure:
  assumes "set G \<times> set G \<subseteq> set (domain f)"
  shows "has_inverses f G u = Inr (\<forall>a\<in>set G. \<exists>b\<in>set G. func f (a, b) = u)"
proof -
  have "any_e (\<lambda>b. bind_e (Function_call f (a, b)) (\<lambda>v. Inr (v = u))) G
        = Inr (\<exists>b\<in>set G. func f (a, b) = u)" if "a \<in> set G" for a
    by (rule any_e_pure) (use assms that in \<open>auto simp: Function_call_in\<close>)
  then show ?thesis
    unfolding has_inverses_def by (rule all_e_pure)
qed

lemma commutes_pure:
  assumes "set G \<times> set G \<subseteq> set (domain f)"
  shows "all_e (commutes_at f) (List.product G G)
     = Inr (\<forall>a\<in>set G. \<forall>b\<in>set G. func f (a, b) = func f (b, a))"
proof -
  have "all_e (commutes_at f) (List.product G G)
     = Inr (\<forall>x\<in>set (List.product G G). func f (fst x, snd x) = func f (snd x, fst x))"
    by (rule all_e_pure) (use assms in \<open>auto simp: commutes_at_def Function_call_in subsetD\<close>)
  then show ?thesis by auto
qed

lemma Group_init_assoc:
  assumes "Group_init G f = Inr H"
  shows "set (codomain f) = set G" and "set (domain f) = set G \<times> set G"
    and "all_e (assoc_at f) (List.product G (List.product G G)) = Inr True"
proof -
  from assms show cod: "set (codomain f) = set G" and dom: "set (domain f) = set G \<times> set G"
    by (auto simp: Group_init_def AlgSet_eq_def split: if_splits)
  show "all_e (assoc_at f) (List.product G (List.product G G)) = Inr True"
  proof (cases "all_e (assoc_at f) (List.product G (List.product G G))")
    case (Inl a)
    with assms cod dom show ?thesis by (simp add: Group_init_def AlgSet_eq_def)
  next
    case (Inr b)
    with assms cod dom show ?thesis by (cases b) (simp_all add: Group_init_def AlgSet_eq_def)
  qed
qed

lemma Group_init_pure:
  assumes cod: "set (codomain f) = set G" and dom: "set (domain f) = set G \<times> set G"
    and closed: "\<And>a b. a \<in> set G \<Longrightarrow> b \<in> set G \<Longrightarrow> func f (a, b) \<in> set G"
  shows "Group_init G f =
    (if \<not> (\<forall>a\<in>set G. \<forall>b\<in>set G. \<forall>c\<in>set G.
           func f (a, func f (b, c)) = func f (func f (a, b), c)) then Inl ValueError
     else case find (\<lambda>x. \<forall>a\<in>set G. func f (x, a) = a) G of
        None \<Rightarrow> Inl ValueError
      | Some e0 \<Rightarrow> if \<not> (\<forall>a\<in>set G. \<exists>b\<in>set G. func f (a, b) = e0) then Inl ValueError
          else Inr \<lparr>Set = G, bin_op = f, e = e0,
            abelian = (\<forall>a\<in>set G. \<forall>b\<in>set G. func f (a, b) = func f (b, a))\<rparr>)"
proof -
  have sub: "set G \<times> set G \<subseteq> set (domain f)" using dom by simp
  have "all_e (assoc_at f) (List.product G (List.product G G))
     = Inr (\<forall>x\<in>set (List.product G (List.product G G)).
         func f (fst x, func f (fst (snd x), snd (snd x)))
           = func f (func f (fst x, fst (snd x)), snd (snd x)))"
  proof (rule all_e_pure)
    fix x assume "x \<in> set (List.product G (List.product G G))"
    then obtain a b c where x: "x = (a, b, c)" and abc: "a \<in> set G" "b \<in> set G" "c \<in> set G"
      by auto
    have "assoc_at f (a, b, c) = Inr (func f (a, func f (b, c)) = func f (func f (a, b), c))"
      by (rule assoc_at_pure) (use abc closed dom in auto)
    then show "assoc_at f x = Inr (func f (fst x, func f (fst (snd x), snd (snd x)))
           = func f (func f (fst x, fst (snd x)), snd (snd x)))"
      by (simp add: x)
  qed
  also have "(\<forall>x\<in>set (List.product G (List.product G G)).
         func f (fst x, func f (fst (snd x), snd (snd x)))
           = func f (func f (fst x, fst (snd x)), snd (snd x)))
     = (\<forall>a\<in>set G. \<forall>b\<in>set G. \<forall>c\<in>set G.
           func f (a, func f (b, c)) = func f (func f (a, b), c))"
    by auto
  finally have 1: "all_e (assoc_at f) (List.product G (List.product G G))
     = Inr (\<forall>a\<in>set G. \<forall>b\<in>set G. \<forall>c\<in>set G.
           func f (a, func f (b, c)) = func f (func f (a, b), c))" .
  have 2: "find_identity f G G = Inr (find (\<lambda>x. \<forall>a\<in>set G. func f (x, a) = a) G)"
    by (rule find_identity_pure) (simp add: dom)
  show ?thesis
    unfolding Group_init_def 1 2 has_inverses_pure[OF sub] commutes_pure[OF sub]
    by (auto simp: AlgSet_eq_def cod dom split: option.splits)
qed

lemma Group_init_closed:
  assumes "Group_init G f = Inr H" "a \<in> set G" "b \<in> set G"
  shows "func f (a, b) \<in> set G"
proof -
  from Group_init_assoc(3)[OF assms(1)] assms(2,3) have "assoc_at f (a, a, b) = Inr True"
    by (auto simp: all_e_True)
  from assoc_at_True(2)[OF this] Group_init_assoc(2)[OF assms(1)] show ?thesis by auto
qed

lemma Group_init_InrD:
  assumes "Group_init G f = Inr H"
  shows "Set H = G" and "bin_op H = f"
    and "set (codomain f) = set G" and "set (domain f) = set G \<times> set G"
    and "e H \<in> set G" and "\<forall>a\<in>set G. func f (e H, a) = a"
    and "\<forall>a\<in>set G. \<forall>b\<in>set G. func f (a, b) \<in> set G"
    and "\<forall>a\<in>set G. \<forall>b\<in>set G. \<forall>c\<in>set G.
           func f (a, func f (b, c)) = func f (func f (a, b), c)"
    and "\<forall>a\<in>set G. \<exists>b\<in>set G. func f (a, b) = e H"
    and "abelian H = (\<forall>a\<in>set G. \<forall>b\<in>set G. func f (a, b) = func f (b, a))"
proof -
  note cod = Group_init_assoc(1)[OF assms] and dom = Group_init_assoc(2)[OF assms]
  have closed: "\<And>a b. a \<in> set G \<Longrightarrow> b \<in> set G \<Longrightarrow> func f (a, b) \<in> set G"
    by (rule Group_init_closed[OF assms])
  define A where "A = (\<forall>a\<in>set G. \<forall>b\<in>set G. \<forall>c\<in>set G.
           func f (a, func f (b, c)) = func f (func f (a, b), c))"
  define P where "P = (\<lambda>x. \<forall>a\<in>set G. func f (x, a) = a)"
  define I where "I = (\<lambda>u. \<forall>a\<in>set G. \<exists>b\<in>set G. func f (a, b) = u)"
  define C where "C = (\<forall>a\<in>set G. \<forall>b\<in>set G. func f (a, b) = func f (b, a))"
  have pure: "Group_init G f = (if \<not> A then Inl ValueError
     else case find P G of None \<Rightarrow> Inl ValueError
      | Some e0 \<Rightarrow> if \<not> I e0 then Inl ValueError
          else Inr \<lparr>Set = G, bin_op = f, e = e0, abelian = C\<rparr>)"
    unfolding A_def P_def I_def C_def by (rule Group_init_pure[OF cod dom closed])
  from assms pure have A: A by (auto split: if_splits)
  from assms pure A obtain e0 where e0: "find P G = Some e0"
    by (cases "find P G") simp_all
  from assms pure A e0 have I: "I e0" by (cases "I e0") simp_all
  from assms pure A e0 I have H: "H = \<lparr>Set = G, bin_op = f, e = e0, abelian = C\<rparr>"
    by simp
  from e0 have e0G: "e0 \<in> set G" and Pe0: "P e0"
    by (auto simp: find_Some_iff in_set_conv_nth)
  show "Set H = G" "bin_op H = f" by (simp_all add: H)
  show "set (codomain f) = set G" "set (domain f) = set G \<times> set G" by fact+
  show "e H \<in> set G" by (simp add: H e0G)
  show "\<forall>a\<in>set G. func f (e H, a) = a" using Pe0 by (simp add: H P_def)
  show "\<forall>a\<in>set G. \<forall>b\<in>set G. func f (a, b) \<in> set G" using closed by blast
  show "\<forall>a\<in>set G. \<forall>b\<in>set G. \<forall>c\<in>set G.
           func f (a, func f (b, c)) = func f (func f (a, b), c)"
    using A by (simp add: A_def)
  show "\<forall>a\<in>set G. \<exists>b\<in>set G. func f (a, b) = e H" using I by (simp add: H I_def)
  show "abelian H = (\<forall>a\<in>set G. \<forall>b\<in>set G. func f (a, b) = func f (b, a))"
    by (simp add: H C_def)
qed

lemma Group_initI:
  assumes cod: "set (codomain f) = set G" and dom: "set (domain f) = set G \<times> set G"
    and closed: "\<And>a b. a \<in> set G \<Longrightarrow> b \<in> set G \<Longrightarrow> func f (a, b) \<in> set G"
    and assoc: "\<And>a b c. a \<in> set G \<Longrightarrow> b \<in> set G \<Longrightarrow> c \<in> set G \<Longrightarrow>
           func f (a, func f (b, c)) = func f (func f (a, b), c)"
    and u: "u \<in> set G" and lid: "\<And>a. a \<in> set G \<Longrightarrow> func f (u, a) = a"
    and uniq: "\<And>x. x \<in> set G \<Longrightarrow> (\<forall>a\<in>set G. func f (x, a) = a) \<Longrightarrow> x = u"
    and inv: "\<And>a. a \<in> set G \<Longrightarrow> \<exists>b\<in>set G. func f (a, b) = u"
  shows "Group_init G f = Inr \<lparr>Set = G, bin_op = f, e = u,
           abelian = (\<forall>a\<in>set G. \<forall>b\<in>set G. func f (a, b) = func f (b, a))\<rparr>"
proof -
  have 1: "find (\<lambda>x. \<forall>a\<in>set G. func f (x, a) = a) G = Some u"
  proof (rule find_unique)
    show "u \<in> set G" by fact
    show "\<forall>a\<in>set G. func f (u, a) = a" using lid by blast
    fix x assume "x \<in> set G" "\<forall>a\<in>set G. func f (x, a) = a"
    then show "x = u" by (rule uniq)
  qed
  have 2: "\<forall>a\<in>set G. \<forall>b\<in>set G. \<forall>c\<in>set G.
           func f (a, func f (b, c)) = func f (func f (a, b), c)"
    using assoc by blast
  have 3: "\<forall>a\<in>set G. \<exists>b\<in>set G. func f (a, b) = u" using inv by blast
  show ?thesis
    by (subst Group_init_pure[OF cod dom]) (use closed 1 2 3 in simp_all)
qed

lemma set_dedup_by: "set (dedup_by key xs) \<subseteq> set xs"
proof (induction key xs rule: dedup_by.induct)
  case (1 key)
  then show ?case by simp
next
  case (2 key x xs)
  then show ?case by auto
qed

lemma keys_dedup_by: "key ` set (dedup_by key xs) = key ` set xs"
proof (induction key xs rule: dedup_by.induct)
  case (1 key)
  then show ?case by simp
next
  case (2 key x xs)
  have "key ` set (x # xs) = insert (key x) (key ` set (filter (\<lambda>y. key y \<noteq> key x) xs))"
    by auto
  with 2 show ?case by simp
qed

lemma distinct_dedup_by: "distinct (map key (dedup_by key xs))"
proof (induction key xs rule: dedup_by.induct)
  case (1 key)
  then show ?case by simp
next
  case (2 key x xs)
  have "key x \<notin> key ` set (dedup_by key (filter (\<lambda>y. key y \<noteq> key x) xs))"
    unfolding keys_dedup_by by auto
  with 2 show ?case by simp
qed

lemma dedup_by_distinct: "distinct (map key xs) \<Longrightarrow> dedup_by key xs = xs"
proof (induction key xs rule: dedup_by.induct)
  case (1 key)
  then show ?case by simp
next
  case (2 key x xs)
  from 2(2) have "key x \<notin> key ` set xs" by simp
  then have "filter (\<lambda>y. key y \<noteq> key x) xs = xs"
    by (intro filter_True) (metis imageI)
  with 2 show ?case by simp
qed

lemma map_insort_key: "map key (insort_key key x xs) = insort (key x) (map key xs)"
  by (induction xs) simp_all

lemma map_sort_key: "map key (sort_key key xs) = sort (map key xs)"
  by (induction xs) (simp_all add: map_insort_key)

lemma map_AlgSet_by: "map key (AlgSet_by key xs) = AlgSet (map key xs)"
proof -
  have "map key (AlgSet_by key xs) = sort (map key (dedup_by key xs))"
    by (simp add: AlgSet_by_def map_sort_key)
  also have "\<dots> = AlgSet (map key xs)"
    by (rule sorted_distinct_set_unique)
       (simp_all add: distinct_dedup_by keys_dedup_by)
  finally show ?thesis .
qed

lemma set_AlgSet_by: "set (AlgSet_by key xs) \<subseteq> set xs"
  using set_dedup_by[of key xs] by (simp add: AlgSet_by_def)

lemma keys_AlgSet_by: "key ` set (AlgSet_by key xs) = key ` set xs"
  by (simp add: AlgSet_by_def keys_dedup_by)

lemma AlgSet_by_sorted: "sorted (map key xs) \<Longrightarrow> distinct (map key xs) \<Longrightarrow> AlgSet_by key xs = xs"
  by (simp add: AlgSet_by_def dedup_by_distinct sort_key_id_if_sorted)

lemma elems_group_elems: "map elem (group_elems G) = AlgSet (Set G)"
  by (simp add: group_elems_def map_AlgSet_by comp_def)

lemma group_of_group_elems: "g \<in> set (group_elems G) \<Longrightarrow> group g = G"
  using set_AlgSet_by[of elem "map (\<lambda>g. \<lparr>elem = g, group = G\<rparr>) (Set G)"]
  by (auto simp: group_elems_def)

lemma group_elems_AlgSet:
  "is_AlgSet (Set G) \<Longrightarrow> group_elems G = map (\<lambda>g. \<lparr>elem = g, group = G\<rparr>) (Set G)"
  unfolding group_elems_def by (rule AlgSet_by_sorted) (simp_all add: comp_def is_AlgSet_def)

lemma Group_contains_iff: "Group_contains G g \<longleftrightarrow> elem g \<in> set (Set G)"
proof -
  have "elem ` set (group_elems G) = set (map elem (group_elems G))" by simp
  then show ?thesis by (simp add: Group_contains_def elems_group_elems del: set_map)
qed

lemma elems_Group_iter:
  "map elem (Group_iter G) = e G # filter (\<lambda>x. x \<noteq> e G) (AlgSet (Set G))"
  by (simp add: Group_iter_def Group_e_def GroupElem_ne_def GroupElem_eq_def
      filter_map comp_def elems_group_elems[symmetric])

lemma is_AlgSet_AlgSet [simp]: "is_AlgSet (AlgSet xs)"
  by (simp add: is_AlgSet_def)

lemma AlgSet_id: "is_AlgSet A \<Longrightarrow> AlgSet A = A"
  by (rule AlgSet_unique) (simp_all add: is_AlgSet_def)

lemma is_AlgSet_eqI: "is_AlgSet A \<Longrightarrow> is_AlgSet B \<Longrightarrow> set A = set B \<Longrightarrow> A = B"
  using AlgSet_unique[of A B] AlgSet_id[of B] by (simp add: is_AlgSet_def)

lemma is_AlgSet_length: "is_AlgSet A \<Longrightarrow> length A = card (set A)"
  by (simp add: is_AlgSet_def distinct_card)

lemma group_on_closed: "group_on S m u \<Longrightarrow> a \<in> S \<Longrightarrow> b \<in> S \<Longrightarrow> m (a, b) \<in> S"
  by (simp add: group_on_def)

lemma group_on_assoc:
  "group_on S m u \<Longrightarrow> a \<in> S \<Longrightarrow> b \<in> S \<Longrightarrow> c \<in> S \<Longrightarrow> m (m (a, b), c) = m (a, m (b, c))"
  by (simp add: group_on_def)

lemma group_on_id: "group_on S m u \<Longrightarrow> u \<in> S"
  by (simp add: group_on_def)

lemma group_on_left_id: "group_on S m u \<Longrightarrow> a \<in> S \<Longrightarrow> m (u, a) = a"
  by (simp add: group_on_def)

lemma group_on_right_id: "group_on S m u \<Longrightarrow> a \<in> S \<Longrightarrow> m (a, u) = a"
  by (simp add: group_on_def)

lemma group_on_finite: "group_on S m u \<Longrightarrow> finite S"
  by (simp add: group_on_def)

lemma group_on_inverse:
  "group_on S m u \<Longrightarrow> a \<in> S \<Longrightarrow> \<exists>b\<in>S. m (a, b) = u \<and> m (b, a) = u"
  by (simp add: group_on_def)

lemma group_on_cancel_left:
  assumes G: "group_on S m u" and S: "a \<in> S" "x \<in> S" "y \<in> S" and eq: "m (a, x) = m (a, y)"
  shows "x = y"
proof -
  from group_on_inverse[OF G S(1)] obtain b where b: "b \<in> S" "m (b, a) = u" by blast
  have "x = m (m (b, a), x)" using b S G by (simp add: group_on_left_id)
  also have "\<dots> = m (b, m (a, x))" by (rule group_on_assoc[OF G b(1) S(1) S(2)])
  also have "\<dots> = m (b, m (a, y))" by (simp add: eq)
  also have "\<dots> = m (m (b, a), y)" by (rule group_on_assoc[OF G b(1) S(1) S(3), symmetric])
  also have "\<dots> = y" using b S G by (simp add: group_on_left_id)
  finally show ?thesis .
qed

lemma group_on_cancel_right:
  assumes G: "group_on S m u" and S: "a \<in> S" "x \<in> S" "y \<in> S" and eq: "m (x, a) = m (y, a)"
  shows "x = y"
proof -
  from group_on_inverse[OF G S(1)] obtain b where b: "b \<in> S" "m (a, b) = u" by blast
  have "x = m (x, m (a, b))" using b S G by (simp add: group_on_right_id)
  also have "\<dots> = m (m (x, a), b)" by (rule group_on_assoc[OF G S(2) S(1) b(1), symmetric])
  also have "\<dots> = m (m (y, a), b)" by (simp add: eq)
  also have "\<dots> = m (y, m (a, b))" by (rule group_on_assoc[OF G S(3) S(1) b(1)])
  also have "\<dots> = y" using b S G by (simp add: group_on_right_id)
  finally show ?thesis .
qed

lemma group_on_id_unique:
  assumes G: "group_on S m u" and x: "x \<in> S" and a: "a \<in> S" and eq: "m (x, a) = a"
  shows "x = u"
proof -
  have "m (x, a) = m (u, a)" using eq a G by (simp add: group_on_left_id)
  then show ?thesis by (rule group_on_cancel_right[OF G a x group_on_id[OF G]])
qed

lemma group_on_right_inverse_left:
  assumes G: "group_on S m u" and a: "a \<in> S" and b: "b \<in> S" and eq: "m (a, b) = u"
  shows "m (b, a) = u"
proof -
  from group_on_inverse[OF G a] obtain c where c: "c \<in> S" "m (a, c) = u" "m (c, a) = u" by blast
  have "m (a, b) = m (a, c)" using eq c by simp
  then have "b = c" by (rule group_on_cancel_left[OF G a b c(1)])
  with c show ?thesis by simp
qed

text \<open>What the constructor checks, together with a right identity, gives the group axioms.\<close>

lemma group_onI_right:
  assumes fin: "finite S" and u: "u \<in> S"
    and closed: "\<And>a b. a \<in> S \<Longrightarrow> b \<in> S \<Longrightarrow> m (a, b) \<in> S"
    and assoc: "\<And>a b c. a \<in> S \<Longrightarrow> b \<in> S \<Longrightarrow> c \<in> S \<Longrightarrow> m (a, m (b, c)) = m (m (a, b), c)"
    and rid: "\<And>a. a \<in> S \<Longrightarrow> m (a, u) = a"
    and lid: "\<And>a. a \<in> S \<Longrightarrow> m (u, a) = a"
    and inv: "\<And>a. a \<in> S \<Longrightarrow> \<exists>b\<in>S. m (a, b) = u"
  shows "group_on S m u"
proof -
  have "\<exists>b\<in>S. m (a, b) = u \<and> m (b, a) = u" if a: "a \<in> S" for a
  proof -
    from inv[OF a] obtain b where b: "b \<in> S" "m (a, b) = u" by blast
    from inv[OF b(1)] obtain c where c: "c \<in> S" "m (b, c) = u" by blast
    have ba: "m (b, a) \<in> S" using closed a b by simp
    have "m (b, a) = m (m (b, a), m (b, c))" using rid[OF ba] c by simp
    also have "\<dots> = m (b, m (a, m (b, c)))"
      using assoc[OF b(1) a, of "m (b, c)"] closed[OF b(1) c(1)] by simp
    also have "m (a, m (b, c)) = m (m (a, b), c)" using assoc[OF a b(1) c(1)] .
    also have "\<dots> = c" using b c lid by simp
    finally have "m (b, a) = u" using c by simp
    with b show ?thesis by blast
  qed
  then show ?thesis
    unfolding group_on_def using fin u closed assoc rid lid by auto
qed

lemma valid_Group_group_on:
  assumes "valid_Group G"
  shows "group_on (set (Set G)) (func (bin_op G)) (e G)"
proof -
  from assms have init: "Group_init (Set G) (bin_op G) = Inr G"
    and rid: "\<forall>a\<in>set (Set G). func (bin_op G) (a, e G) = a"
    by (simp_all add: valid_Group_def)
  note D = Group_init_InrD[OF init]
  show ?thesis
    by (rule group_onI_right) (use D rid in auto)
qed

lemma valid_Group_dom:
  assumes "valid_Group G"
  shows "set (domain (bin_op G)) = set (Set G) \<times> set (Set G)"
    and "set (codomain (bin_op G)) = set (Set G)" and "is_AlgSet (Set G)"
    and "abelian G = (\<forall>a\<in>set (Set G). \<forall>b\<in>set (Set G).
       func (bin_op G) (a, b) = func (bin_op G) (b, a))"
  using assms Group_init_InrD[of "Set G" "bin_op G" G] by (simp_all add: valid_Group_def)

lemma group_on_Group_init:
  assumes G: "group_on (set S) (func f) u"
    and cod: "set (codomain f) = set S" and dom: "set (domain f) = set S \<times> set S"
  shows "Group_init S f = Inr \<lparr>Set = S, bin_op = f, e = u,
           abelian = (\<forall>a\<in>set S. \<forall>b\<in>set S. func f (a, b) = func f (b, a))\<rparr>"
proof (rule Group_initI[OF cod dom])
  show "\<And>a b. a \<in> set S \<Longrightarrow> b \<in> set S \<Longrightarrow> func f (a, b) \<in> set S"
    by (rule group_on_closed[OF G])
  show "\<And>a b c. a \<in> set S \<Longrightarrow> b \<in> set S \<Longrightarrow> c \<in> set S \<Longrightarrow>
           func f (a, func f (b, c)) = func f (func f (a, b), c)"
    by (simp add: group_on_assoc[OF G])
  show "u \<in> set S" by (rule group_on_id[OF G])
  show "\<And>a. a \<in> set S \<Longrightarrow> func f (u, a) = a" by (rule group_on_left_id[OF G])
  show "x = u" if "x \<in> set S" "\<forall>a\<in>set S. func f (x, a) = a" for x
    using group_on_id_unique[OF G that(1) that(1)] that by simp
  show "\<exists>b\<in>set S. func f (a, b) = u" if "a \<in> set S" for a
    using group_on_inverse[OF G that] by blast
qed

lemma valid_GroupI:
  assumes "is_AlgSet S" and G: "group_on (set S) (func f) u"
    and cod: "set (codomain f) = set S" and dom: "set (domain f) = set S \<times> set S"
  shows "valid_Group \<lparr>Set = S, bin_op = f, e = u,
           abelian = (\<forall>a\<in>set S. \<forall>b\<in>set S. func f (a, b) = func f (b, a))\<rparr>"
  using assms group_on_Group_init[OF G cod dom]
  by (simp add: valid_Group_def group_on_right_id)

lemma is_AlgSet_upt [simp]: "is_AlgSet [0..<n]"
  by (simp add: is_AlgSet_def)

lemma Zn_group_on:
  assumes "0 < n"
  shows "group_on (set [0..<n]) (\<lambda>x. (fst x + snd x) mod n) 0"
proof (rule group_onI_right)
  show "finite (set [0..<n])" by simp
  show "0 \<in> set [0..<n]" using assms by simp
  show "(fst (a, b) + snd (a, b)) mod n \<in> set [0..<n]" for a b using assms by simp
  show "(fst (a, (fst (b, c) + snd (b, c)) mod n) + snd (a, (fst (b, c) + snd (b, c)) mod n)) mod n
      = (fst ((fst (a, b) + snd (a, b)) mod n, c) + snd ((fst (a, b) + snd (a, b)) mod n, c)) mod n"
    for a b c by (simp add: mod_simps add.assoc)
  show "(fst (a, 0::nat) + snd (a, 0::nat)) mod n = a" if "a \<in> set [0..<n]" for a using that by simp
  show "(fst (0::nat, a) + snd (0::nat, a)) mod n = a" if "a \<in> set [0..<n]" for a using that by simp
  show "\<exists>b\<in>set [0..<n]. (fst (a, b) + snd (a, b)) mod n = 0" if "a \<in> set [0..<n]" for a
  proof
    show "(n - a) mod n \<in> set [0..<n]" using assms by simp
    have "(a + (n - a) mod n) mod n = (a + (n - a)) mod n" by (simp add: mod_simps)
    also have "\<dots> = 0" using that by simp
    finally show "(fst (a, (n - a) mod n) + snd (a, (n - a) mod n)) mod n = 0" by simp
  qed
qed

lemma Zn_Group_valid:
  assumes "0 < n"
  shows "valid_Group (Zn_Group n)"
proof -
  define F where "F = \<lparr>domain = AlgSet_mul [0..<n] [0..<n], codomain = [0..<n],
                func = (\<lambda>x. (fst x + snd x) mod n)\<rparr>"
  have g: "group_on (set [0..<n]) (func F) 0"
    using Zn_group_on[OF assms] by (simp add: F_def)
  have "valid_Group \<lparr>Set = [0..<n], bin_op = F, e = 0,
           abelian = (\<forall>a\<in>set [0..<n]. \<forall>b\<in>set [0..<n]. func F (a, b) = func F (b, a))\<rparr>"
    by (rule valid_GroupI[OF is_AlgSet_upt g]) (simp_all add: F_def)
  moreover have "(\<forall>a\<in>set [0..<n]. \<forall>b\<in>set [0..<n]. func F (a, b) = func F (b, a)) = True"
    by (simp add: F_def add.commute)
  ultimately show ?thesis by (simp add: Zn_Group_def F_def)
qed

lemma Zn_eq: "0 < n \<Longrightarrow> Zn n = Inr (Zn_Group n)"
  using Zn_Group_valid[of n]
  by (simp add: Zn_def valid_Group_def Zn_Group_def AlgSet_id Let_def)

lemma set_group_elems:
  "is_AlgSet (Set G) \<Longrightarrow> set (group_elems G) = (\<lambda>x. \<lparr>elem = x, group = G\<rparr>) ` set (Set G)"
  by (simp add: group_elems_AlgSet)

lemma valid_Group_e: "valid_Group G \<Longrightarrow> e G \<in> set (Set G)"
  using group_on_id[OF valid_Group_group_on] .

lemma set_Group_iter:
  assumes "valid_Group G"
  shows "set (Group_iter G) = set (group_elems G)"
proof -
  define W where "W = (\<lambda>x. \<lparr>elem = x, group = G\<rparr>)"
  have ge: "group_elems G = map W (Set G)"
    unfolding W_def by (rule group_elems_AlgSet[OF valid_Group_dom(3)[OF assms]])
  have "filter (\<lambda>g. GroupElem_ne g (Group_e G)) (map W (Set G))
      = map W (filter (\<lambda>x. x \<noteq> e G) (Set G))"
    by (simp add: filter_map comp_def GroupElem_ne_def GroupElem_eq_def Group_e_def W_def)
  then have "set (Group_iter G) = insert (W (e G)) (W ` {x \<in> set (Set G). x \<noteq> e G})"
    by (simp add: Group_iter_def ge Group_e_def W_def)
  also have "\<dots> = W ` set (Set G)"
    using valid_Group_e[OF assms] by blast
  finally show ?thesis by (simp add: ge)
qed

lemma GroupElem_mul_own:
  assumes "valid_Group G" "a \<in> set (Set G)" "b \<in> set (Set G)"
  shows "GroupElem_mul \<lparr>elem = a, group = G\<rparr> \<lparr>elem = b, group = G\<rparr>
       = Inr \<lparr>elem = func (bin_op G) (a, b), group = G\<rparr>"
  using assms valid_Group_dom(1)[OF assms(1)] group_on_closed[OF valid_Group_group_on[OF assms(1)] assms(2,3)]
  by (simp add: GroupElem_mul_def Function_call_in GroupElem_init_def)

section \<open>Iteration over a group\<close>

text \<open>
  C10.  For every group \<open>G\<close> that the constructor has built from a set \<open>S\<close>, the
  iteration \<^verbatim>\<open>Group.__iter__\<close> starts with the identity \<^verbatim>\<open>G.e\<close> (the element the
  constructor found neutral), goes on with the other elements, and yields every
  element of \<open>S\<close> exactly once, each wrapped as an element of \<open>G\<close>.
\<close>

theorem Group_iter_identity_first_each_once:
  assumes "Group_init S f = Inr G"
  shows "(\<exists>rest. Group_iter G = Group_e G # rest \<and> e G \<notin> elem ` set rest) \<and>
     elem (Group_e G) = e G \<and> (\<forall>a\<in>set S. func f (e G, a) = a) \<and>
     distinct (map elem (Group_iter G)) \<and> set (map elem (Group_iter G)) = set S \<and>
     (\<forall>g\<in>set (Group_iter G). group g = G)"
proof -
  note D = Group_init_InrD[OF assms]
  have 1: "\<exists>rest. Group_iter G = Group_e G # rest \<and> e G \<notin> elem ` set rest"
    by (auto simp: Group_iter_def GroupElem_ne_def GroupElem_eq_def Group_e_def)
  have 2: "elem (Group_e G) = e G" by (simp add: Group_e_def)
  have 3: "\<forall>a\<in>set S. func f (e G, a) = a" by (rule D(6))
  have el: "map elem (Group_iter G) = e G # filter (\<lambda>x. x \<noteq> e G) (AlgSet S)"
    by (simp add: elems_Group_iter D(1))
  have 4: "distinct (map elem (Group_iter G))" unfolding el by simp
  have 5: "set (map elem (Group_iter G)) = set S" unfolding el using D(5) by auto
  have 6: "\<forall>g\<in>set (Group_iter G). group g = G"
    by (auto simp: Group_iter_def Group_e_def group_of_group_elems)
  from 1 2 3 4 5 6 show ?thesis by blast
qed

theorem Group_iter_identity_first_each_once_witness:
  "Group_init [0..<3] (bin_op (Zn_Group 3)) = Inr (Zn_Group 3) \<and>
   map elem (Group_iter (Zn_Group 3)) = [0, 1, 2] \<and>
   distinct (map elem (Group_iter (Zn_Group 3))) \<and>
   set (map elem (Group_iter (Zn_Group 3))) = set [0..<3]"
proof -
  have h: "Group_init [0..<3] (bin_op (Zn_Group 3)) = Inr (Zn_Group 3)"
    using Zn_Group_valid[of 3] by (simp add: valid_Group_def Zn_Group_def)
  have "map elem (Group_iter (Zn_Group 3)) = [0, 1, 2]"
    by code_simp
  with h Group_iter_identity_first_each_once[OF h] show ?thesis by simp
qed

section \<open>What the constructor accepts\<close>

text \<open>
  C3.  The constructor accepts \<open>{0, 1}\<close> with \<open>a * b = b\<close>: the checks for a left
  identity and for right inverses pass, the object is built with \<open>e = 0\<close>, and yet
  \<open>1 * e = 0\<close>, and no element is neutral on both sides: the object is not a group.
\<close>

theorem Group_init_accepts_right_zero:
  "(case Group_init [0, 1] right_zero_op of
      Inl err \<Rightarrow> False
    | Inr G \<Rightarrow> Set G = [0, 1] \<and> e G = 0 \<and> func (bin_op G) (1, e G) = 0 \<and>
        \<not> list_ex (\<lambda>u. list_all (\<lambda>a. func (bin_op G) (u, a) = a \<and> func (bin_op G) (a, u) = a)
                        (Set G)) (Set G))"
  by code_simp

section \<open>Inverses\<close>

lemma Group_iter_own:
  assumes "valid_Group G"
  shows "Group_iter G = map (\<lambda>x. \<lparr>elem = x, group = G\<rparr>) (e G # filter (\<lambda>x. x \<noteq> e G) (Set G))"
  by (simp add: Group_iter_def group_elems_AlgSet[OF valid_Group_dom(3)[OF assms]]
      filter_map comp_def GroupElem_ne_def GroupElem_eq_def Group_e_def)

lemma first_inverse_own:
  assumes G: "valid_Group G" and x: "x \<in> set (Set G)" and ys: "set ys \<subseteq> set (Set G)"
    and ex: "\<exists>b\<in>set ys. func (bin_op G) (x, b) = e G"
  shows "\<exists>b\<in>set ys. first_inverse \<lparr>elem = x, group = G\<rparr> (Group_e G)
            (map (\<lambda>y. \<lparr>elem = y, group = G\<rparr>) ys) = Inr \<lparr>elem = b, group = G\<rparr> \<and>
          func (bin_op G) (x, b) = e G"
  using ys ex
proof (induction ys)
  case Nil
  then show ?case by simp
next
  case (Cons y ys)
  from Cons.prems(1) have y: "y \<in> set (Set G)" by simp
  note mul = GroupElem_mul_own[OF G x y]
  show ?case
  proof (cases "func (bin_op G) (x, y) = e G")
    case True
    then show ?thesis by (simp add: mul GroupElem_eq_def Group_e_def)
  next
    case False
    with Cons.prems have "\<exists>b\<in>set ys. func (bin_op G) (x, b) = e G" by auto
    with Cons.IH Cons.prems(1) obtain b where "b \<in> set ys"
      "first_inverse \<lparr>elem = x, group = G\<rparr> (Group_e G)
            (map (\<lambda>y. \<lparr>elem = y, group = G\<rparr>) ys) = Inr \<lparr>elem = b, group = G\<rparr>"
      "func (bin_op G) (x, b) = e G" by auto
    with False show ?thesis by (simp add: mul GroupElem_eq_def Group_e_def)
  qed
qed

text \<open>
  C7.  In a valid group \<open>G\<close>, for every element \<open>g\<close> of \<open>G\<close>, \<^verbatim>\<open>G.inverse(g)\<close>
  returns an element \<open>a\<close> of \<open>G\<close> for which both \<^verbatim>\<open>g * a\<close> and \<^verbatim>\<open>a * g\<close> are
  computed without error and compare equal to the identity \<^verbatim>\<open>G.e\<close>.
\<close>

theorem Group_inverse_two_sided:
  assumes "valid_Group G" and "g \<in> set (group_elems G)"
  shows "\<exists>a. Group_inverse G g = Inr a \<and> a \<in> set (group_elems G) \<and>
           (\<exists>p. GroupElem_mul g a = Inr p \<and> GroupElem_eq p (Group_e G)) \<and>
           (\<exists>q. GroupElem_mul a g = Inr q \<and> GroupElem_eq q (Group_e G))"
proof -
  note grp = valid_Group_group_on[OF assms(1)]
  note alg = valid_Group_dom(3)[OF assms(1)]
  from assms(2) obtain x where x: "x \<in> set (Set G)" and g: "g = \<lparr>elem = x, group = G\<rparr>"
    by (auto simp: set_group_elems[OF alg])
  have sub: "set (e G # filter (\<lambda>x. x \<noteq> e G) (Set G)) \<subseteq> set (Set G)"
    using valid_Group_e[OF assms(1)] by auto
  have "\<exists>b\<in>set (e G # filter (\<lambda>x. x \<noteq> e G) (Set G)). func (bin_op G) (x, b) = e G"
    using group_on_inverse[OF grp x] by auto
  from first_inverse_own[OF assms(1) x sub this] obtain b where
    b: "b \<in> set (Set G)" "func (bin_op G) (x, b) = e G"
    and fi: "first_inverse \<lparr>elem = x, group = G\<rparr> (Group_e G) (Group_iter G)
       = Inr \<lparr>elem = b, group = G\<rparr>"
    unfolding Group_iter_own[OF assms(1)] using sub by blast
  have 1: "Group_inverse G g = Inr \<lparr>elem = b, group = G\<rparr>"
    using fi x by (simp add: Group_inverse_def Group_contains_iff g)
  have 2: "\<lparr>elem = b, group = G\<rparr> \<in> set (group_elems G)"
    using b by (simp add: set_group_elems[OF alg])
  have 3: "GroupElem_mul g \<lparr>elem = b, group = G\<rparr> = Inr \<lparr>elem = e G, group = G\<rparr>"
    using GroupElem_mul_own[OF assms(1) x b(1)] b(2) by (simp add: g)
  have "func (bin_op G) (b, x) = e G"
    by (rule group_on_right_inverse_left[OF grp x b(1) b(2)])
  then have 4: "GroupElem_mul \<lparr>elem = b, group = G\<rparr> g = Inr \<lparr>elem = e G, group = G\<rparr>"
    using GroupElem_mul_own[OF assms(1) b(1) x] by (simp add: g)
  show ?thesis
    using 1 2 3 4 by (simp add: GroupElem_eq_def Group_e_def)
qed

theorem Group_inverse_two_sided_witness:
  "valid_Group (Zn_Group 5) \<and> \<lparr>elem = 2, group = Zn_Group 5\<rparr> \<in> set (group_elems (Zn_Group 5)) \<and>
   (\<exists>a. Group_inverse (Zn_Group 5) \<lparr>elem = 2, group = Zn_Group 5\<rparr> = Inr a \<and>
        a \<in> set (group_elems (Zn_Group 5)) \<and>
        (\<exists>p. GroupElem_mul \<lparr>elem = 2, group = Zn_Group 5\<rparr> a = Inr p \<and>
             GroupElem_eq p (Group_e (Zn_Group 5))) \<and>
        (\<exists>q. GroupElem_mul a \<lparr>elem = 2, group = Zn_Group 5\<rparr> = Inr q \<and>
             GroupElem_eq q (Group_e (Zn_Group 5))))"
proof -
  have v: "valid_Group (Zn_Group 5)" by (rule Zn_Group_valid) simp
  have m: "\<lparr>elem = 2, group = Zn_Group 5\<rparr> \<in> set (group_elems (Zn_Group 5))"
    by (simp add: set_group_elems[OF valid_Group_dom(3)[OF v]]) (simp add: Zn_Group_def)
  from v m Group_inverse_two_sided[OF v m] show ?thesis by blast
qed

section \<open>Powers\<close>

lemma GroupElem_pow_even_fails:
  assumes "0 < n" "n mod 2 = 0"
  shows "\<exists>err. GroupElem_pow g (PyInt n) = Inl err"
proof (cases "GroupElem_mul g g")
  case (Inl a)
  with assms show ?thesis by simp
next
  case (Inr s)
  with assms show ?thesis by (cases "truediv_2 n") (auto simp: truediv_2_def split: if_splits)
qed

lemma GroupElem_pow_positive_fails:
  assumes "2 \<le> n"
  shows "\<exists>err. GroupElem_pow g (PyInt n) = Inl err"
proof (cases "n mod 2 = 0")
  case True
  with assms show ?thesis by (intro GroupElem_pow_even_fails) simp_all
next
  case False
  then have odd: "n mod 2 = 1" by presburger
  with assms have "0 < n - 1" "(n - 1) mod 2 = 0" by presburger+
  from GroupElem_pow_even_fails[OF this] obtain err where
    "GroupElem_pow g (PyInt (n - 1)) = Inl err" by blast
  with assms odd show ?thesis by simp
qed

text \<open>
  Whatever the group and the element, an exponent \<open>n\<close> with \<open>2 \<le> \<bar>n\<bar>\<close> makes
  \<^verbatim>\<open>__pow__\<close> raise: the recursion reaches \<^verbatim>\<open>(self * self) ** (n / 2)\<close>, whose
  exponent is a float.
\<close>

lemma GroupElem_pow_fails:
  assumes "2 \<le> \<bar>n\<bar>"
  shows "\<exists>err. GroupElem_pow g (PyInt n) = Inl err"
proof (cases "0 \<le> n")
  case True
  with assms show ?thesis by (intro GroupElem_pow_positive_fails) simp
next
  case False
  show ?thesis
  proof (cases "Group_inverse (group g) g")
    case (Inl a)
    with False show ?thesis by simp
  next
    case (Inr i)
    from assms False have "2 \<le> - n" by simp
    from GroupElem_pow_positive_fails[OF this, of i] Inr False show ?thesis by simp
  qed
qed

text \<open>
  C2.  In \<^verbatim>\<open>Zn(3)\<close>, with \<open>g = 1\<close>: \<^verbatim>\<open>g * g\<close> is \<open>2\<close>, and \<^verbatim>\<open>g ** 2\<close> raises
  \<^verbatim>\<open>TypeError\<close> instead of returning it.  The exponents \<open>0\<close>, \<open>1\<close> and \<open>-1\<close> do
  return the identity, \<open>g\<close> and the inverse of \<open>g\<close>.
\<close>

theorem GroupElem_pow_two_raises:
  "GroupElem_pow \<lparr>elem = 1, group = Zn_Group 3\<rparr> (PyInt 2) = Inl TypeError \<and>
   GroupElem_mul \<lparr>elem = 1, group = Zn_Group 3\<rparr> \<lparr>elem = 1, group = Zn_Group 3\<rparr>
     = Inr \<lparr>elem = 2, group = Zn_Group 3\<rparr> \<and>
   GroupElem_pow \<lparr>elem = 1, group = Zn_Group 3\<rparr> (PyInt 0) = Inr \<lparr>elem = 0, group = Zn_Group 3\<rparr> \<and>
   GroupElem_pow \<lparr>elem = 1, group = Zn_Group 3\<rparr> (PyInt 1) = Inr \<lparr>elem = 1, group = Zn_Group 3\<rparr>"
proof -
  have v: "valid_Group (Zn_Group 3)" by (rule Zn_Group_valid) simp
  have S: "Set (Zn_Group 3) = [0, 1, 2]" by (simp add: Zn_Group_def upt_rec)
  have f: "func (bin_op (Zn_Group 3)) = (\<lambda>x. (fst x + snd x) mod 3)" by (simp add: Zn_Group_def)
  have m11: "GroupElem_mul \<lparr>elem = 1, group = Zn_Group 3\<rparr> \<lparr>elem = 1, group = Zn_Group 3\<rparr>
     = Inr \<lparr>elem = 2, group = Zn_Group 3\<rparr>"
    by (subst GroupElem_mul_own[OF v]) (simp_all add: S f)
  have m10: "GroupElem_mul \<lparr>elem = 1, group = Zn_Group 3\<rparr> \<lparr>elem = 0, group = Zn_Group 3\<rparr>
     = Inr \<lparr>elem = 1, group = Zn_Group 3\<rparr>"
    by (subst GroupElem_mul_own[OF v]) (simp_all add: S f)
  have t: "truediv_2 2 = Inr PyFloat" by (simp add: truediv_2_def)
  have e0: "Group_e (Zn_Group 3) = \<lparr>elem = 0, group = Zn_Group 3\<rparr>"
    by (simp add: Group_e_def) (simp add: Zn_Group_def)
  show ?thesis using m11 m10 t e0 by simp
qed

section \<open>Generated subgroups\<close>

text \<open>
  An item handed to \<^verbatim>\<open>Group.generate\<close> is a wrapped element or any other value;
  \<^verbatim>\<open>g if isinstance(g, GroupElem) else GroupElem(g, self)\<close> wraps the latter.
\<close>

datatype 'a item = Wrapped "'a GroupElem" | Raw 'a

definition as_GroupElem :: "'a Group \<Rightarrow> 'a item \<Rightarrow> error + 'a GroupElem" where
  "as_GroupElem G it = (case it of Wrapped g \<Rightarrow> Inr g | Raw x \<Rightarrow> GroupElem_init x G)"

text \<open>
  One round of the loop of \<^verbatim>\<open>generate\<close>:
  \<^verbatim>\<open>newG = oldG | AlgSet(a * b for a, b in itertools.product(oldG, oldG))\<close>.
\<close>

definition close_step :: "'a::linorder GroupElem AlgSet \<Rightarrow> error + 'a GroupElem AlgSet" where
  "close_step oldG =
     bind_e (map_e (\<lambda>(a, b). GroupElem_mul a b) (List.product oldG oldG))
       (\<lambda>ps. Inr (AlgSet_by_or elem oldG (AlgSet_by elem ps)))"

text \<open>
  The values that a product of elements of \<open>st\<close> can take: every product is wrapped
  into the group of one of its factors, and \<^verbatim>\<open>GroupElem.__init__\<close> checks that it
  lies in that group's set.
\<close>

definition reach :: "'a GroupElem list \<Rightarrow> 'a set" where
  "reach st = (\<Union>g\<in>set st. set (Set (group g)))"

lemma GroupElem_init_Inr:
  "GroupElem_init x G = Inr p \<Longrightarrow> p = \<lparr>elem = x, group = G\<rparr> \<and> x \<in> set (Set G)"
  by (auto simp: GroupElem_init_def split: if_splits)

lemma GroupElem_rmul_Inr:
  assumes "GroupElem_rmul b a = Inr p"
  shows "group p = group b" and "elem p \<in> set (Set (group b))"
    and "elem p = func (bin_op (group b)) (elem a, elem b)"
    and "(elem a, elem b) \<in> set (domain (bin_op (group b)))"
  using assms
  by (auto simp: GroupElem_rmul_def bind_e_eq_Inr Function_call_eq_Inr dest!: GroupElem_init_Inr)

lemma GroupElem_mul_Inr:
  assumes "GroupElem_mul a b = Inr p"
  shows "(group p = group a \<or> group p = group b) \<and> elem p \<in> set (Set (group p))"
proof (cases "bind_e (Function_call (bin_op (group a)) (elem a, elem b))
             (\<lambda>v. GroupElem_init v (group a))")
  case (Inl err)
  with assms have "GroupElem_rmul b a = Inr p"
    by (simp add: GroupElem_mul_def split: if_splits)
  from GroupElem_rmul_Inr(1,2)[OF this] show ?thesis by simp
next
  case (Inr g)
  with assms have "g = p" by (simp add: GroupElem_mul_def)
  with Inr show ?thesis
    by (auto simp: bind_e_eq_Inr dest!: GroupElem_init_Inr)
qed

lemma map_e_Inr_set:
  "map_e f xs = Inr ys \<Longrightarrow> y \<in> set ys \<Longrightarrow> \<exists>x\<in>set xs. f x = Inr y"
proof (induction xs arbitrary: ys)
  case Nil
  then show ?case by simp
next
  case (Cons x xs)
  then show ?case by (auto split: sum.splits)
qed

lemma close_step_Inr:
  assumes "close_step st = Inr st'"
  shows "elem ` set st \<subseteq> elem ` set st'" and "elem ` set st' \<subseteq> elem ` set st \<union> reach st"
    and "reach st' \<subseteq> reach st"
proof -
  from assms obtain ps where ps: "map_e (\<lambda>(a, b). GroupElem_mul a b) (List.product st st) = Inr ps"
    and st': "st' = AlgSet_by_or elem st (AlgSet_by elem ps)"
    by (auto simp: close_step_def bind_e_eq_Inr)
  have keys: "elem ` set st' = elem ` set st \<union> elem ` set ps"
    by (simp add: st' AlgSet_by_or_def keys_AlgSet_by image_Un)
  have sub: "set st' \<subseteq> set st \<union> set ps"
    using set_AlgSet_by[of elem "st @ AlgSet_by elem ps"] set_AlgSet_by[of elem ps]
    by (auto simp: st' AlgSet_by_or_def)
  have p: "(\<exists>a\<in>set st. group p = group a) \<and> elem p \<in> set (Set (group p))" if "p \<in> set ps" for p
  proof -
    from map_e_Inr_set[OF ps that] obtain a b where ab: "a \<in> set st" "b \<in> set st"
      "GroupElem_mul a b = Inr p" by auto
    from GroupElem_mul_Inr[OF ab(3)] ab(1,2) show ?thesis by auto
  qed
  show "elem ` set st \<subseteq> elem ` set st'" using keys by simp
  show "elem ` set st' \<subseteq> elem ` set st \<union> reach st"
    unfolding keys reach_def using p by fastforce
  show "reach st' \<subseteq> reach st"
    unfolding reach_def using sub p by fastforce
qed

function generate_loop :: "'a::linorder GroupElem AlgSet \<Rightarrow> error + 'a GroupElem AlgSet" where
  "generate_loop oldG =
     (case close_step oldG of
        Inl err \<Rightarrow> Inl err
      | Inr newG \<Rightarrow> if AlgSet_by_eq elem oldG newG then Inr oldG else generate_loop newG)"
  by pat_completeness auto
termination
proof (relation "measure (\<lambda>st. card (reach st - elem ` set st))")
  show "wf (measure (\<lambda>st. card (reach st - elem ` set st)))" by simp
next
  fix oldG newG :: "'a GroupElem list"
  assume step: "close_step oldG = Inr newG" and ne: "\<not> AlgSet_by_eq elem oldG newG"
  note S = close_step_Inr[OF step]
  from ne S(1) obtain k where k: "k \<in> elem ` set newG" "k \<notin> elem ` set oldG"
    by (auto simp: AlgSet_by_eq_def)
  with S(2) have kr: "k \<in> reach oldG" by auto
  have fin: "finite (reach oldG - elem ` set oldG)" by (simp add: reach_def)
  have "reach newG - elem ` set newG \<subset> reach oldG - elem ` set oldG"
    using S k kr by blast
  then have "card (reach newG - elem ` set newG) < card (reach oldG - elem ` set oldG)"
    by (rule psubset_card_mono[OF fin])
  then show "(newG, oldG) \<in> measure (\<lambda>st. card (reach st - elem ` set st))" by simp
qed

text \<open>\<^verbatim>\<open>Group.generate\<close>.\<close>

definition generate :: "'a::linorder Group \<Rightarrow> 'a item list \<Rightarrow> error + 'a Group" where
  "generate G items =
     bind_e (map_e (as_GroupElem G) items) (\<lambda>gs.
       let elems = AlgSet_by elem gs in
       if \<not> AlgSet_by_le elem elems (group_elems G) then Inl ValueError
       else if length elems = 0 then Inl ValueError
       else bind_e (generate_loop elems) (\<lambda>oldG.
         let oldG = AlgSet (map elem oldG) in
         Group_init oldG (new_domains (bin_op G) (AlgSet_mul oldG oldG) oldG)))"

text \<open>\<^verbatim>\<open>Group.__le__\<close>, the subgroup test.\<close>

definition Group_le :: "'a Group \<Rightarrow> 'a Group \<Rightarrow> error + bool" where
  "Group_le H G =
     (if \<not> AlgSet_le (Set H) (Set G) then Inr False
      else all_e (\<lambda>(a, b). bind_e (Function_call (bin_op H) (a, b)) (\<lambda>l.
                   bind_e (Function_call (bin_op G) (a, b)) (\<lambda>r. Inr (l = r))))
             (List.product (Set H) (Set H)))"

text \<open>\<^verbatim>\<open>GroupElem.order\<close> and \<^verbatim>\<open>Group.is_cyclic\<close>.\<close>

definition GroupElem_order :: "'a::linorder GroupElem \<Rightarrow> error + nat" where
  "GroupElem_order g = bind_e (generate (group g) [Wrapped g]) (\<lambda>H. Inr (Group_len H))"

definition is_cyclic :: "'a::linorder Group \<Rightarrow> error + bool" where
  "is_cyclic G = any_e (\<lambda>g. bind_e (GroupElem_order g) (\<lambda>n. Inr (n = Group_len G))) (Group_iter G)"

text \<open>
  The closure of a set \<open>X\<close> under the operation \<open>m\<close>: the least set that contains
  \<open>X\<close> and every product of two of its elements.
\<close>

inductive_set gen_set :: "('a \<times> 'a \<Rightarrow> 'a) \<Rightarrow> 'a set \<Rightarrow> 'a set" for m :: "'a \<times> 'a \<Rightarrow> 'a" and X :: "'a set" where
  base: "x \<in> X \<Longrightarrow> x \<in> gen_set m X"
| mul: "a \<in> gen_set m X \<Longrightarrow> b \<in> gen_set m X \<Longrightarrow> m (a, b) \<in> gen_set m X"

lemma gen_set_least:
  assumes "X \<subseteq> K" and "\<And>a b. a \<in> K \<Longrightarrow> b \<in> K \<Longrightarrow> m (a, b) \<in> K"
  shows "gen_set m X \<subseteq> K"
proof
  fix x assume "x \<in> gen_set m X"
  then show "x \<in> K"
    by (induction rule: gen_set.induct) (use assms in auto)
qed

lemma gen_set_mono: "X \<subseteq> Y \<Longrightarrow> gen_set m X \<subseteq> gen_set m Y"
  by (rule gen_set_least) (auto intro: gen_set.intros)

lemma gen_set_closed_id:
  assumes "\<And>a b. a \<in> K \<Longrightarrow> b \<in> K \<Longrightarrow> m (a, b) \<in> K"
  shows "gen_set m K = K"
  using gen_set_least[of K K m] assms by (auto intro: gen_set.base)

lemma gen_set_step:
  "gen_set m (K \<union> {m (a, b) | a b. a \<in> K \<and> b \<in> K}) = gen_set m K"
proof
  show "gen_set m (K \<union> {m (a, b) | a b. a \<in> K \<and> b \<in> K}) \<subseteq> gen_set m K"
    by (rule gen_set_least) (auto intro: gen_set.intros)
  show "gen_set m K \<subseteq> gen_set m (K \<union> {m (a, b) | a b. a \<in> K \<and> b \<in> K})"
    by (rule gen_set_mono) simp
qed

text \<open>A non-empty subset of a finite group that is closed under the operation is a group.\<close>

lemma closed_subset_group_on:
  assumes G: "group_on S m u" and sub: "C \<subseteq> S" and ne: "C \<noteq> {}"
    and closed: "\<And>a b. a \<in> C \<Longrightarrow> b \<in> C \<Longrightarrow> m (a, b) \<in> C"
  shows "group_on C m u"
proof -
  have fin: "finite C" using sub group_on_finite[OF G] by (rule finite_subset)
  have surj: "(\<lambda>x. m (a, x)) ` C = C" if a: "a \<in> C" for a
  proof (rule endo_inj_surj[OF fin])
    show "(\<lambda>x. m (a, x)) ` C \<subseteq> C" using closed a by auto
    show "inj_on (\<lambda>x. m (a, x)) C"
      by (rule inj_onI) (use group_on_cancel_left[OF G] a sub in blast)
  qed
  from ne obtain c where c: "c \<in> C" by blast
  from surj[OF c] c obtain x where x: "x \<in> C" "m (c, x) = c" by (metis imageE)
  have cx: "m (c, x) = m (c, u)" using x c sub G by (simp add: group_on_right_id subsetD)
  have "x = u"
    by (rule group_on_cancel_left[OF G _ _ _ cx]) (use c x sub group_on_id[OF G] in auto)
  with x have u: "u \<in> C" by simp
  have inv: "\<exists>b\<in>C. m (a, b) = u" if a: "a \<in> C" for a
    using surj[OF a] u by (metis imageE)
  show ?thesis
  proof (rule group_onI_right[OF fin u])
    show "\<And>a b. a \<in> C \<Longrightarrow> b \<in> C \<Longrightarrow> m (a, b) \<in> C" by (rule closed)
    show "\<And>a b c. a \<in> C \<Longrightarrow> b \<in> C \<Longrightarrow> c \<in> C \<Longrightarrow> m (a, m (b, c)) = m (m (a, b), c)"
      using group_on_assoc[OF G] sub by (simp add: subsetD)
    show "\<And>a. a \<in> C \<Longrightarrow> m (a, u) = a" using group_on_right_id[OF G] sub by blast
    show "\<And>a. a \<in> C \<Longrightarrow> m (u, a) = a" using group_on_left_id[OF G] sub by blast
    show "\<And>a. a \<in> C \<Longrightarrow> \<exists>b\<in>C. m (a, b) = u" by (rule inv)
  qed
qed

lemma gen_set_group_on:
  assumes G: "group_on S m u" and sub: "X \<subseteq> S" and ne: "X \<noteq> {}"
  shows "group_on (gen_set m X) m u"
proof (rule closed_subset_group_on[OF G])
  show "gen_set m X \<subseteq> S" by (rule gen_set_least[OF sub]) (rule group_on_closed[OF G])
  show "gen_set m X \<noteq> {}" using ne by (auto intro: gen_set.base)
  show "\<And>a b. a \<in> gen_set m X \<Longrightarrow> b \<in> gen_set m X \<Longrightarrow> m (a, b) \<in> gen_set m X"
    by (rule gen_set.mul)
qed

text \<open>
  \<open>restr G H\<close>: the object \<open>H\<close> carries the operation of \<open>G\<close>, restricted to a subset
  of \<open>G\<close> that is closed under it.  \<open>good G H g\<close>: the wrapped element \<open>g\<close> belongs to
  \<open>G\<close> or to \<open>H\<close>.
\<close>

definition restr :: "'a Group \<Rightarrow> 'a Group \<Rightarrow> bool" where
  "restr G H =
     (set (Set H) \<subseteq> set (Set G) \<and> func (bin_op H) = func (bin_op G) \<and>
      set (domain (bin_op H)) = set (Set H) \<times> set (Set H) \<and>
      (\<forall>a\<in>set (Set H). \<forall>b\<in>set (Set H). func (bin_op G) (a, b) \<in> set (Set H)))"

definition good :: "'a Group \<Rightarrow> 'a Group \<Rightarrow> 'a GroupElem \<Rightarrow> bool" where
  "good G H g = (elem g \<in> set (Set (group g)) \<and> (group g = G \<or> group g = H))"

lemma restr_refl:
  assumes "valid_Group G"
  shows "restr G G"
  using group_on_closed[OF valid_Group_group_on[OF assms]] valid_Group_dom(1)[OF assms]
  by (simp add: restr_def)

lemma good_elem: "restr G H \<Longrightarrow> good G H g \<Longrightarrow> elem g \<in> set (Set G)"
  by (auto simp: restr_def good_def)

lemma good_own: "x \<in> set (Set G) \<Longrightarrow> good G H \<lparr>elem = x, group = G\<rparr>"
  by (simp add: good_def)

lemma GroupElem_mul_good:
  assumes G: "valid_Group G" and H: "restr G H" and a: "good G H a" and b: "good G H b"
  shows "\<exists>p. GroupElem_mul a b = Inr p \<and> good G H p \<and>
              elem p = func (bin_op G) (elem a, elem b)"
proof -
  note ea = good_elem[OF H a] and eb = good_elem[OF H b]
  have mG: "func (bin_op G) (elem a, elem b) \<in> set (Set G)"
    by (rule group_on_closed[OF valid_Group_group_on[OF G] ea eb])
  have callG: "Function_call (bin_op G) (elem a, elem b) = Inr (func (bin_op G) (elem a, elem b))"
    using ea eb valid_Group_dom(1)[OF G] by (simp add: Function_call_in)
  show ?thesis
  proof (cases "group a = G")
    case True
    then show ?thesis
      using callG mG by (simp add: GroupElem_mul_def GroupElem_init_def good_def)
  next
    case False
    with a have ga: "group a = H" and aH: "elem a \<in> set (Set H)" by (auto simp: good_def)
    show ?thesis
    proof (cases "elem b \<in> set (Set H)")
      case True
      with aH H have "(elem a, elem b) \<in> set (domain (bin_op H))"
        and "func (bin_op H) (elem a, elem b) = func (bin_op G) (elem a, elem b)"
        and "func (bin_op G) (elem a, elem b) \<in> set (Set H)"
        by (auto simp: restr_def)
      then show ?thesis
        by (simp add: GroupElem_mul_def GroupElem_init_def good_def ga Function_call_in)
    next
      case False
      with b have gb: "group b = G" by (auto simp: good_def)
      from False aH H have "Function_call (bin_op H) (elem a, elem b) = Inl TypeError"
        by (auto simp: Function_call_def restr_def)
      then show ?thesis
        using callG mG
        by (simp add: GroupElem_mul_def GroupElem_rmul_def GroupElem_init_def good_def ga gb)
    qed
  qed
qed

lemma map_e_total:
  assumes "\<And>x. x \<in> set xs \<Longrightarrow> \<exists>y. f x = Inr y"
  shows "map_e f xs = Inr (map (\<lambda>x. projr (f x)) xs)"
proof (rule map_e_pure)
  fix x assume "x \<in> set xs"
  from assms[OF this] show "f x = Inr (projr (f x))" by auto
qed

lemma close_step_good:
  assumes G: "valid_Group G" and H: "restr G H" and st: "\<forall>g\<in>set st. good G H g"
  shows "\<exists>st'. close_step st = Inr st' \<and> (\<forall>g\<in>set st'. good G H g) \<and>
     elem ` set st' = elem ` set st \<union>
        {func (bin_op G) (a, b) | a b. a \<in> elem ` set st \<and> b \<in> elem ` set st}"
proof -
  define mul :: "'a GroupElem \<times> 'a GroupElem \<Rightarrow> error + 'a GroupElem"
    where "mul = (\<lambda>(a, b). GroupElem_mul a b)"
  define ps where "ps = map (\<lambda>x. projr (mul x)) (List.product st st)"
  have ok: "\<exists>p. mul (a, b) = Inr p \<and> good G H p \<and> elem p = func (bin_op G) (elem a, elem b)"
    if "a \<in> set st" "b \<in> set st" for a b
    using GroupElem_mul_good[OF G H] st that by (simp add: mul_def)
  have "map_e mul (List.product st st) = Inr ps"
    unfolding ps_def by (rule map_e_total) (use ok in auto)
  then have cs: "close_step st = Inr (AlgSet_by_or elem st (AlgSet_by elem ps))"
    by (simp add: close_step_def mul_def)
  have psgood: "good G H p" if "p \<in> set ps" for p
  proof -
    from that obtain a b where "a \<in> set st" "b \<in> set st" "p = projr (mul (a, b))"
      by (auto simp: ps_def)
    with ok[of a b] show ?thesis by auto
  qed
  have pskeys: "elem ` set ps = {func (bin_op G) (a, b) | a b. a \<in> elem ` set st \<and> b \<in> elem ` set st}"
  proof (intro set_eqI iffI)
    fix k assume "k \<in> elem ` set ps"
    then obtain a b where ab: "a \<in> set st" "b \<in> set st" "k = elem (projr (mul (a, b)))"
      by (auto simp: ps_def)
    with ok[of a b] have "k = func (bin_op G) (elem a, elem b)" by auto
    with ab show "k \<in> {func (bin_op G) (a, b) | a b. a \<in> elem ` set st \<and> b \<in> elem ` set st}"
      by blast
  next
    fix k assume "k \<in> {func (bin_op G) (a, b) | a b. a \<in> elem ` set st \<and> b \<in> elem ` set st}"
    then obtain a b where ab: "a \<in> set st" "b \<in> set st" "k = func (bin_op G) (elem a, elem b)"
      by auto
    with ok[of a b] have "k = elem (projr (mul (a, b)))" by auto
    moreover have "projr (mul (a, b)) \<in> set ps" using ab by (auto simp: ps_def)
    ultimately show "k \<in> elem ` set ps" by blast
  qed
  have sub: "set (AlgSet_by_or elem st (AlgSet_by elem ps)) \<subseteq> set st \<union> set ps"
    using set_AlgSet_by[of elem "st @ AlgSet_by elem ps"] set_AlgSet_by[of elem ps]
    by (auto simp: AlgSet_by_or_def)
  have keys: "elem ` set (AlgSet_by_or elem st (AlgSet_by elem ps)) = elem ` set st \<union> elem ` set ps"
    by (simp add: AlgSet_by_or_def keys_AlgSet_by image_Un)
  show ?thesis
    using cs sub st psgood keys pskeys by (intro exI conjI) (assumption, blast, simp)
qed

lemma generate_loop_good:
  assumes G: "valid_Group G" and H: "restr G H"
  shows "(\<forall>g\<in>set st. good G H g) \<Longrightarrow>
     \<exists>st'. generate_loop st = Inr st' \<and> (\<forall>g\<in>set st'. good G H g) \<and>
       elem ` set st' = gen_set (func (bin_op G)) (elem ` set st)"
proof (induction st rule: generate_loop.induct)
  case (1 oldG)
  define m where "m = func (bin_op G)"
  define K where "K = elem ` set oldG"
  from close_step_good[OF G H "1.prems"] obtain newG where
    cs: "close_step oldG = Inr newG" and gd: "\<forall>g\<in>set newG. good G H g"
    and keys: "elem ` set newG = K \<union> {m (a, b) | a b. a \<in> K \<and> b \<in> K}"
    unfolding m_def K_def by blast
  show ?case
  proof (cases "AlgSet_by_eq elem oldG newG")
    case True
    then have "K = K \<union> {m (a, b) | a b. a \<in> K \<and> b \<in> K}"
      using keys by (simp add: AlgSet_by_eq_def K_def)
    then have "\<And>a b. a \<in> K \<Longrightarrow> b \<in> K \<Longrightarrow> m (a, b) \<in> K" by blast
    then have "gen_set m K = K" by (rule gen_set_closed_id)
    moreover have "generate_loop oldG = Inr oldG"
      using cs True by (subst generate_loop.simps) simp
    ultimately show ?thesis using "1.prems" by (simp add: m_def K_def)
  next
    case False
    from "1.IH"[OF cs False gd] obtain st' where
      st': "generate_loop newG = Inr st'" "\<forall>g\<in>set st'. good G H g"
      "elem ` set st' = gen_set m (elem ` set newG)"
      unfolding m_def by blast
    have "gen_set m (elem ` set newG) = gen_set m K"
      unfolding keys by (rule gen_set_step)
    moreover have "generate_loop oldG = generate_loop newG"
      using cs False by (subst generate_loop.simps) simp
    ultimately show ?thesis using st' by (simp add: m_def K_def)
  qed
qed

text \<open>The value an item stands for, and the items that belong to a group.\<close>

fun item_value :: "'a item \<Rightarrow> 'a" where
  "item_value (Wrapped g) = elem g"
| "item_value (Raw x) = x"

fun own_item :: "'a::linorder Group \<Rightarrow> 'a item \<Rightarrow> bool" where
  "own_item G (Wrapped g) = (g \<in> set (group_elems G))"
| "own_item G (Raw x) = (x \<in> set (Set G))"

fun good_item :: "'a Group \<Rightarrow> 'a Group \<Rightarrow> 'a item \<Rightarrow> bool" where
  "good_item G H (Wrapped g) = good G H g"
| "good_item G H (Raw x) = (x \<in> set (Set G))"

lemma own_item_good:
  assumes "valid_Group G" "own_item G it"
  shows "good_item G G it"
proof (cases it)
  case (Wrapped g)
  with assms show ?thesis
    by (auto simp: set_group_elems[OF valid_Group_dom(3)[OF assms(1)]] good_def)
next
  case (Raw x)
  with assms show ?thesis by simp
qed

lemma as_GroupElem_good:
  assumes "restr G H" "good_item G H it"
  shows "\<exists>g. as_GroupElem G it = Inr g \<and> good G H g \<and> elem g = item_value it"
  using assms by (cases it) (auto simp: as_GroupElem_def GroupElem_init_def good_def)

lemma generate_good:
  assumes G: "valid_Group G" and H: "restr G H" and ne: "items \<noteq> []"
    and ok: "\<And>it. it \<in> set items \<Longrightarrow> good_item G H it"
  shows "\<exists>K. generate G items = Inr K \<and> valid_Group K \<and>
     set (Set K) = gen_set (func (bin_op G)) (item_value ` set items) \<and>
     bin_op K = new_domains (bin_op G) (AlgSet_mul (Set K) (Set K)) (Set K) \<and> e K = e G"
proof -
  define m where "m = func (bin_op G)"
  define X where "X = item_value ` set items"
  define gs where "gs = map (\<lambda>it. projr (as_GroupElem G it)) items"
  have conv: "\<exists>g. as_GroupElem G it = Inr g \<and> good G H g \<and> elem g = item_value it"
    if "it \<in> set items" for it
    using as_GroupElem_good[OF H ok[OF that]] .
  have 1: "map_e (as_GroupElem G) items = Inr gs"
    unfolding gs_def by (rule map_e_total) (use conv in blast)
  have gsgood: "\<forall>g\<in>set gs. good G H g"
  proof
    fix g assume "g \<in> set gs"
    then obtain it where "it \<in> set items" "g = projr (as_GroupElem G it)"
      by (auto simp: gs_def)
    with conv[of it] show "good G H g" by auto
  qed
  have gskeys: "elem ` set gs = X"
  proof -
    have "elem (projr (as_GroupElem G it)) = item_value it" if "it \<in> set items" for it
      using conv[OF that] by auto
    then show ?thesis by (auto simp: gs_def X_def image_image)
  qed
  define elems where "elems = AlgSet_by elem gs"
  have egood: "\<forall>g\<in>set elems. good G H g"
    using gsgood set_AlgSet_by[of elem gs] by (auto simp: elems_def)
  have ekeys: "elem ` set elems = X" by (simp add: elems_def keys_AlgSet_by gskeys)
  have XG: "X \<subseteq> set (Set G)" using gsgood good_elem[OF H] gskeys by auto
  have Xne: "X \<noteq> {}" using ne by (simp add: X_def)
  have "elem ` set (group_elems G) = set (map elem (group_elems G))" by simp
  also have "\<dots> = set (Set G)" by (simp add: elems_group_elems del: set_map)
  finally have 2: "AlgSet_by_le elem elems (group_elems G)"
    using XG by (simp add: AlgSet_by_le_def ekeys)
  have 3: "length elems \<noteq> 0" using ekeys Xne by auto
  from generate_loop_good[OF G H egood] obtain st' where
    4: "generate_loop elems = Inr st'" and st'keys: "elem ` set st' = gen_set m X"
    unfolding m_def ekeys by blast
  define S' where "S' = AlgSet (map elem st')"
  define f' where "f' = new_domains (bin_op G) (AlgSet_mul S' S') S'"
  have setS': "set S' = gen_set m X" by (simp add: S'_def st'keys)
  have grp: "group_on (set S') (func f') (e G)"
    unfolding setS' using gen_set_group_on[OF valid_Group_group_on[OF G] XG Xne]
    by (simp add: f'_def new_domains_def m_def)
  have cod: "set (codomain f') = set S'" and dom: "set (domain f') = set S' \<times> set S'"
    by (simp_all add: f'_def new_domains_def)
  define K where "K = \<lparr>Set = S', bin_op = f', e = e G,
      abelian = (\<forall>a\<in>set S'. \<forall>b\<in>set S'. func f' (a, b) = func f' (b, a))\<rparr>"
  have 5: "Group_init S' f' = Inr K"
    unfolding K_def by (rule group_on_Group_init[OF grp cod dom])
  have 6: "valid_Group K"
    unfolding K_def by (rule valid_GroupI[OF _ grp cod dom]) (simp add: S'_def)
  have "generate G items = Inr K"
    using 1 2 3 4 5 by (simp add: generate_def elems_def[symmetric] Let_def S'_def[symmetric] f'_def)
  moreover have "set (Set K) = gen_set (func (bin_op G)) (item_value ` set items)"
    by (simp add: K_def setS' m_def X_def)
  moreover have "bin_op K = new_domains (bin_op G) (AlgSet_mul (Set K) (Set K)) (Set K)"
    by (simp add: K_def f'_def)
  moreover have "e K = e G" by (simp add: K_def)
  ultimately show ?thesis using 6 by blast
qed

lemma Group_le_restriction:
  assumes sub: "set (Set K) \<subseteq> set (Set G)"
    and domK: "set (domain (bin_op K)) = set (Set K) \<times> set (Set K)"
    and domG: "set (domain (bin_op G)) = set (Set G) \<times> set (Set G)"
    and eq: "\<And>a b. a \<in> set (Set K) \<Longrightarrow> b \<in> set (Set K) \<Longrightarrow>
               func (bin_op K) (a, b) = func (bin_op G) (a, b)"
  shows "Group_le K G = Inr True"
proof -
  have "all_e (\<lambda>(a, b). bind_e (Function_call (bin_op K) (a, b)) (\<lambda>l.
                   bind_e (Function_call (bin_op G) (a, b)) (\<lambda>r. Inr (l = r))))
             (List.product (Set K) (Set K)) = Inr True"
    unfolding all_e_True
  proof
    fix x assume "x \<in> set (List.product (Set K) (Set K))"
    then obtain a b where x: "x = (a, b)" and ab: "a \<in> set (Set K)" "b \<in> set (Set K)" by auto
    have "(a, b) \<in> set (domain (bin_op K))" "(a, b) \<in> set (domain (bin_op G))"
      using ab sub domK domG by auto
    then have "Function_call (bin_op K) (a, b) = Inr (func (bin_op K) (a, b))"
      and "Function_call (bin_op G) (a, b) = Inr (func (bin_op G) (a, b))"
      by (simp_all add: Function_call_in)
    then show "(case x of (a, b) \<Rightarrow> bind_e (Function_call (bin_op K) (a, b)) (\<lambda>l.
                   bind_e (Function_call (bin_op G) (a, b)) (\<lambda>r. Inr (l = r)))) = Inr True"
      using eq[OF ab] by (simp add: x)
  qed
  then show ?thesis using sub by (simp add: Group_le_def AlgSet_le_def)
qed

lemma Group_le_TrueD:
  assumes "Group_le K G = Inr True"
  shows "set (Set K) \<subseteq> set (Set G)"
    and "\<And>a b. a \<in> set (Set K) \<Longrightarrow> b \<in> set (Set K) \<Longrightarrow>
               (a, b) \<in> set (domain (bin_op K)) \<and> (a, b) \<in> set (domain (bin_op G)) \<and>
               func (bin_op K) (a, b) = func (bin_op G) (a, b)"
proof -
  show sub: "set (Set K) \<subseteq> set (Set G)"
    using assms by (auto simp: Group_le_def AlgSet_le_def split: if_splits)
  fix a b assume ab: "a \<in> set (Set K)" "b \<in> set (Set K)"
  from assms sub have "all_e (\<lambda>(a, b). bind_e (Function_call (bin_op K) (a, b)) (\<lambda>l.
                   bind_e (Function_call (bin_op G) (a, b)) (\<lambda>r. Inr (l = r))))
             (List.product (Set K) (Set K)) = Inr True"
    by (simp add: Group_le_def AlgSet_le_def)
  with ab have "bind_e (Function_call (bin_op K) (a, b)) (\<lambda>l.
                   bind_e (Function_call (bin_op G) (a, b)) (\<lambda>r. Inr (l = r))) = Inr True"
    by (auto simp: all_e_True)
  then show "(a, b) \<in> set (domain (bin_op K)) \<and> (a, b) \<in> set (domain (bin_op G)) \<and>
               func (bin_op K) (a, b) = func (bin_op G) (a, b)"
    by (auto simp: bind_e_eq_Inr Function_call_eq_Inr)
qed

lemma map_e_TypeError:
  assumes "\<exists>x\<in>set xs. f x = Inl TypeError" and "\<And>x err. x \<in> set xs \<Longrightarrow> f x = Inl err \<Longrightarrow> err = TypeError"
  shows "map_e f xs = Inl TypeError"
  using assms
proof (induction xs)
  case Nil
  then show ?case by simp
next
  case (Cons x xs)
  show ?case
  proof (cases "f x")
    case (Inl err)
    with Cons.prems(2)[of x err] show ?thesis by simp
  next
    case (Inr y)
    with Cons.prems(1) have "\<exists>x\<in>set xs. f x = Inl TypeError" by auto
    then have "map_e f xs = Inl TypeError"
      by (rule Cons.IH) (use Cons.prems(2) in auto)
    with Inr show ?thesis by simp
  qed
qed

lemma keys_group_elems: "elem ` set (group_elems G) = set (Set G)"
proof -
  have "elem ` set (group_elems G) = set (map elem (group_elems G))" by simp
  also have "\<dots> = set (Set G)" by (simp add: elems_group_elems del: set_map)
  finally show ?thesis .
qed

lemma generate_Nil: "generate G [] = Inl ValueError"
  by (simp add: generate_def AlgSet_by_def AlgSet_by_le_def)

lemma generate_TypeError:
  assumes "Raw x \<in> set items" "x \<notin> set (Set G)"
  shows "generate G items = Inl TypeError"
proof -
  have "map_e (as_GroupElem G) items = Inl TypeError"
  proof (rule map_e_TypeError)
    show "\<exists>it\<in>set items. as_GroupElem G it = Inl TypeError"
      using assms by (intro bexI[of _ "Raw x"]) (simp_all add: as_GroupElem_def GroupElem_init_def)
    show "err = TypeError" if "as_GroupElem G it = Inl err" for it err
    proof (cases it)
      case (Wrapped h)
      with that show ?thesis by (simp add: as_GroupElem_def)
    next
      case (Raw y)
      with that show ?thesis by (simp add: as_GroupElem_def GroupElem_init_def split: if_splits)
    qed
  qed
  then show ?thesis by (simp add: generate_def)
qed

lemma generate_ValueError:
  assumes raw: "\<And>x. Raw x \<in> set items \<Longrightarrow> x \<in> set (Set G)"
    and w: "Wrapped g \<in> set items" "elem g \<notin> set (Set G)"
  shows "generate G items = Inl ValueError"
proof -
  define gs where "gs = map (\<lambda>it. projr (as_GroupElem G it)) items"
  have conv: "\<exists>h. as_GroupElem G it = Inr h \<and> elem h = item_value it" if "it \<in> set items" for it
  proof (cases it)
    case (Wrapped h)
    then show ?thesis by (simp add: as_GroupElem_def)
  next
    case (Raw x)
    with that raw[of x] show ?thesis by (simp add: as_GroupElem_def GroupElem_init_def)
  qed
  have 1: "map_e (as_GroupElem G) items = Inr gs"
    unfolding gs_def by (rule map_e_total) (use conv in blast)
  have "projr (as_GroupElem G (Wrapped g)) \<in> set gs" using w(1) by (simp add: gs_def)
  then have "elem g \<in> elem ` set gs" by (force simp: as_GroupElem_def)
  then have "\<not> AlgSet_by_le elem (AlgSet_by elem gs) (group_elems G)"
    using w(2) by (auto simp: AlgSet_by_le_def keys_AlgSet_by keys_group_elems)
  with 1 show ?thesis by (simp add: generate_def Let_def)
qed

lemma generate_own:
  assumes G: "valid_Group G" and ne: "items \<noteq> []" and own: "\<forall>it\<in>set items. own_item G it"
  shows "\<exists>H. generate G items = Inr H \<and> valid_Group H \<and> Group_le H G = Inr True \<and>
     item_value ` set items \<subseteq> set (Set H) \<and> e H = e G \<and>
     set (Set H) = gen_set (func (bin_op G)) (item_value ` set items) \<and>
     (\<forall>K. valid_Group K \<and> Group_le K G = Inr True \<and> item_value ` set items \<subseteq> set (Set K)
          \<longrightarrow> set (Set H) \<subseteq> set (Set K))"
proof -
  define X where "X = item_value ` set items"
  from generate_good[OF G restr_refl[OF G] ne] own own_item_good[OF G]
  obtain H where gen: "generate G items = Inr H" and v: "valid_Group H"
    and S: "set (Set H) = gen_set (func (bin_op G)) X"
    and op: "bin_op H = new_domains (bin_op G) (AlgSet_mul (Set H) (Set H)) (Set H)"
    and eH: "e H = e G"
    unfolding X_def by blast
  note grp = valid_Group_group_on[OF G]
  have XG: "X \<subseteq> set (Set G)"
  proof
    fix x assume "x \<in> X"
    then obtain it where it: "it \<in> set items" "x = item_value it" by (auto simp: X_def)
    with own have o: "own_item G it" by simp
    show "x \<in> set (Set G)"
    proof (cases it)
      case (Wrapped g)
      with o it have "x \<in> elem ` set (group_elems G)" by auto
      then show ?thesis by (simp add: keys_group_elems)
    next
      case (Raw y)
      with o it show ?thesis by simp
    qed
  qed
  have sub: "set (Set H) \<subseteq> set (Set G)"
    unfolding S by (rule gen_set_least[OF XG]) (rule group_on_closed[OF grp])
  have le: "Group_le H G = Inr True"
  proof (rule Group_le_restriction[OF sub _ valid_Group_dom(1)[OF G]])
    show "set (domain (bin_op H)) = set (Set H) \<times> set (Set H)"
      by (subst op) (simp add: new_domains_def)
    show "func (bin_op H) (a, b) = func (bin_op G) (a, b)" for a b
      by (subst op) (simp add: new_domains_def)
  qed
  have least: "set (Set H) \<subseteq> set (Set K)"
    if K: "valid_Group K" "Group_le K G = Inr True" "X \<subseteq> set (Set K)" for K
    unfolding S
  proof (rule gen_set_least[OF K(3)])
    fix a b assume ab: "a \<in> set (Set K)" "b \<in> set (Set K)"
    from Group_le_TrueD(2)[OF K(2) ab] have "func (bin_op G) (a, b) = func (bin_op K) (a, b)"
      by simp
    also have "\<dots> \<in> set (Set K)"
      by (rule group_on_closed[OF valid_Group_group_on[OF K(1)] ab])
    finally show "func (bin_op G) (a, b) \<in> set (Set K)" .
  qed
  have "X \<subseteq> set (Set H)" unfolding S by (auto intro: gen_set.base)
  with gen v le eH S least show ?thesis unfolding X_def by blast
qed

lemma generate_identity:
  assumes G: "valid_Group G"
  shows "\<exists>H. generate G [Wrapped (Group_e G)] = Inr H \<and> Group_len H = 1"
proof -
  note alg = valid_Group_dom(3)[OF G]
  have "Group_e G \<in> set (group_elems G)"
    using valid_Group_e[OF G] by (simp add: set_group_elems[OF alg] Group_e_def)
  then have "\<forall>it\<in>set [Wrapped (Group_e G)]. own_item G it" by simp
  from generate_own[OF G _ this] obtain H where H: "generate G [Wrapped (Group_e G)] = Inr H"
    "valid_Group H" "set (Set H) = gen_set (func (bin_op G)) {e G}"
    by (auto simp: Group_e_def)
  have "func (bin_op G) (a, b) \<in> {e G}" if "a \<in> {e G}" "b \<in> {e G}" for a b
    using that group_on_left_id[OF valid_Group_group_on[OF G] valid_Group_e[OF G]] by simp
  then have "gen_set (func (bin_op G)) {e G} = {e G}" by (rule gen_set_closed_id)
  with H(3) have "card (set (Set H)) = 1" by simp
  then have "Group_len H = 1"
    using is_AlgSet_length[OF valid_Group_dom(3)[OF H(2)]] by (simp add: Group_len_def)
  with H(1) show ?thesis by blast
qed

text \<open>
  C4, as the claim states it, fails for an item that is not wrapped: a plain value
  outside the group is refused by \<^verbatim>\<open>GroupElem.__init__\<close> with \<^verbatim>\<open>TypeError\<close> before
  the subset test is reached.  In \<^verbatim>\<open>Zn(3)\<close>, \<^verbatim>\<open>generate([5])\<close> raises \<^verbatim>\<open>TypeError\<close>.
\<close>

theorem generate_raw_outsider_TypeError:
  "5 \<notin> set (Set (Zn_Group 3)) \<and> generate (Zn_Group 3) [Raw 5] = Inl TypeError \<and>
   generate (Zn_Group 3) [Raw 5] \<noteq> Inl ValueError"
proof -
  have 1: "5 \<notin> set (Set (Zn_Group 3))" by (simp add: Zn_Group_def)
  have "generate (Zn_Group 3) [Raw 5] = Inl TypeError"
    by (rule generate_TypeError[of 5]) (simp_all add: 1)
  with 1 show ?thesis by simp
qed

text \<open>
  C4, amended.  For a valid group \<open>G\<close> and a non-empty collection of elements of \<open>G\<close>
  (wrapped elements of \<open>G\<close>, or plain values of its set), \<^verbatim>\<open>G.generate\<close> returns a
  valid group \<open>H\<close> that is a subgroup of \<open>G\<close>, contains the given elements, is their
  closure under the operation, and is contained in every subgroup of \<open>G\<close> that
  contains them.  An empty collection raises \<^verbatim>\<open>ValueError\<close>; so does a collection
  with a wrapped element whose value is not in \<open>G\<close>, unless a plain value outside
  \<open>G\<close> is present, which raises \<^verbatim>\<open>TypeError\<close>.  The identity alone generates a
  subgroup of order 1.
\<close>

theorem generate_smallest_subgroup:
  "(valid_Group G \<and> items \<noteq> [] \<and> (\<forall>it\<in>set items. own_item G it) \<longrightarrow>
      (\<exists>H. generate G items = Inr H \<and> valid_Group H \<and> Group_le H G = Inr True \<and>
         item_value ` set items \<subseteq> set (Set H) \<and>
         set (Set H) = gen_set (func (bin_op G)) (item_value ` set items) \<and>
         (\<forall>K. valid_Group K \<and> Group_le K G = Inr True \<and> item_value ` set items \<subseteq> set (Set K)
              \<longrightarrow> set (Set H) \<subseteq> set (Set K)))) \<and>
   generate G [] = Inl ValueError \<and>
   ((\<forall>x. Raw x \<in> set items \<longrightarrow> x \<in> set (Set G)) \<and>
    (\<exists>g. Wrapped g \<in> set items \<and> elem g \<notin> set (Set G)) \<longrightarrow> generate G items = Inl ValueError) \<and>
   ((\<exists>x. Raw x \<in> set items \<and> x \<notin> set (Set G)) \<longrightarrow> generate G items = Inl TypeError) \<and>
   (valid_Group G \<longrightarrow> (\<exists>H. generate G [Wrapped (Group_e G)] = Inr H \<and> Group_len H = 1))"
proof (intro conjI impI)
  assume "valid_Group G \<and> items \<noteq> [] \<and> (\<forall>it\<in>set items. own_item G it)"
  then have "valid_Group G" "items \<noteq> []" "\<forall>it\<in>set items. own_item G it" by simp_all
  from generate_own[OF this]
  show "\<exists>H. generate G items = Inr H \<and> valid_Group H \<and> Group_le H G = Inr True \<and>
         item_value ` set items \<subseteq> set (Set H) \<and>
         set (Set H) = gen_set (func (bin_op G)) (item_value ` set items) \<and>
         (\<forall>K. valid_Group K \<and> Group_le K G = Inr True \<and> item_value ` set items \<subseteq> set (Set K)
              \<longrightarrow> set (Set H) \<subseteq> set (Set K))"
    by blast
next
  show "generate G [] = Inl ValueError" by (rule generate_Nil)
next
  assume "(\<forall>x. Raw x \<in> set items \<longrightarrow> x \<in> set (Set G)) \<and>
    (\<exists>g. Wrapped g \<in> set items \<and> elem g \<notin> set (Set G))"
  then show "generate G items = Inl ValueError"
    using generate_ValueError[of items G] by blast
next
  assume "\<exists>x. Raw x \<in> set items \<and> x \<notin> set (Set G)"
  then show "generate G items = Inl TypeError"
    using generate_TypeError[of _ items G] by blast
next
  assume "valid_Group G"
  then show "\<exists>H. generate G [Wrapped (Group_e G)] = Inr H \<and> Group_len H = 1"
    by (rule generate_identity)
qed


theorem generate_smallest_subgroup_witness:
  "valid_Group (Zn_Group 6) \<and>
   own_item (Zn_Group 6) (Wrapped \<lparr>elem = 2, group = Zn_Group 6\<rparr>) \<and>
   (\<exists>H. generate (Zn_Group 6) [Wrapped \<lparr>elem = 2, group = Zn_Group 6\<rparr>] = Inr H \<and>
        valid_Group H \<and> Group_le H (Zn_Group 6) = Inr True \<and> Set H = [0, 2, 4]) \<and>
   generate (Zn_Group 6) [] = Inl ValueError \<and>
   elem \<lparr>elem = 7, group = Zn_Group 8\<rparr> \<notin> set (Set (Zn_Group 6)) \<and>
   generate (Zn_Group 6) [Wrapped \<lparr>elem = 7, group = Zn_Group 8\<rparr>] = Inl ValueError \<and>
   generate (Zn_Group 6) [Raw 7] = Inl TypeError \<and>
   (\<exists>H. generate (Zn_Group 6) [Wrapped (Group_e (Zn_Group 6))] = Inr H \<and> Group_len H = 1)"
proof -
  have v: "valid_Group (Zn_Group 6)" by (rule Zn_Group_valid) simp
  have S: "Set (Zn_Group 6) = [0..<6]" by (simp add: Zn_Group_def)
  have o: "own_item (Zn_Group 6) (Wrapped \<lparr>elem = 2, group = Zn_Group 6\<rparr>)"
    by (simp add: set_group_elems[OF valid_Group_dom(3)[OF v]] S)
  have c: "map_sum id Set (generate (Zn_Group 6) [Wrapped \<lparr>elem = 2, group = Zn_Group 6\<rparr>])
      = Inr [0, 2, 4]"
    by code_simp
  have n: "elem \<lparr>elem = 7, group = Zn_Group 8\<rparr> \<notin> set (Set (Zn_Group 6))" by (simp add: S)
  have n': "(7::nat) \<notin> set (Set (Zn_Group 6))" by (simp add: S)
  note T1 = generate_smallest_subgroup[of "Zn_Group 6" "[Wrapped \<lparr>elem = 2, group = Zn_Group 6\<rparr>]"]
  note T2 = generate_smallest_subgroup[of "Zn_Group 6" "[Wrapped \<lparr>elem = 7, group = Zn_Group 8\<rparr>]"]
  note T3 = generate_smallest_subgroup[of "Zn_Group 6" "[Raw 7]"]
  from T1 v o obtain H where H: "generate (Zn_Group 6) [Wrapped \<lparr>elem = 2, group = Zn_Group 6\<rparr>] = Inr H"
    "valid_Group H" "Group_le H (Zn_Group 6) = Inr True" by auto
  with c have "Set H = [0, 2, 4]" by simp
  with H have 1: "\<exists>H. generate (Zn_Group 6) [Wrapped \<lparr>elem = 2, group = Zn_Group 6\<rparr>] = Inr H \<and>
        valid_Group H \<and> Group_le H (Zn_Group 6) = Inr True \<and> Set H = [0, 2, 4]" by blast
  from T2 n have 2: "generate (Zn_Group 6) [Wrapped \<lparr>elem = 7, group = Zn_Group 8\<rparr>] = Inl ValueError"
    by auto
  from T3 n' have 3: "generate (Zn_Group 6) [Raw 7] = Inl TypeError" by auto
  from T1 v have 4: "\<exists>H. generate (Zn_Group 6) [Wrapped (Group_e (Zn_Group 6))] = Inr H \<and> Group_len H = 1"
    by blast
  from T1 have 5: "generate (Zn_Group 6) [] = Inl ValueError" by blast
  from v o 1 2 3 4 5 n show ?thesis by blast
qed

section \<open>Generators\<close>

lemma generate_loop_keys_mono:
  "generate_loop st = Inr st' \<Longrightarrow> elem ` set st \<subseteq> elem ` set st'"
proof (induction st rule: generate_loop.induct)
  case (1 oldG)
  show ?case
  proof (cases "close_step oldG")
    case (Inl err)
    with "1.prems" show ?thesis by (subst (asm) generate_loop.simps) simp
  next
    case (Inr newG)
    show ?thesis
    proof (cases "AlgSet_by_eq elem oldG newG")
      case True
      with Inr "1.prems" show ?thesis by (subst (asm) generate_loop.simps) simp
    next
      case False
      with Inr "1.prems" have "generate_loop newG = Inr st'"
        by (subst (asm) generate_loop.simps) simp
      from "1.IH"[OF Inr False this] close_step_Inr(1)[OF Inr] show ?thesis by blast
    qed
  qed
qed

lemma as_GroupElem_Inr: "as_GroupElem G it = Inr g \<Longrightarrow> elem g = item_value it"
  by (cases it) (auto simp: as_GroupElem_def dest: GroupElem_init_Inr)

lemma map_e_Inr_all:
  "map_e f xs = Inr ys \<Longrightarrow> x \<in> set xs \<Longrightarrow> \<exists>y\<in>set ys. f x = Inr y"
proof (induction xs arbitrary: ys)
  case Nil
  then show ?case by simp
next
  case (Cons a xs)
  then show ?case by (auto split: sum.splits)
qed

text \<open>Whatever the group, a subgroup that \<^verbatim>\<open>generate\<close> returns contains the items given.\<close>

lemma generate_contains:
  assumes "generate G items = Inr H"
  shows "item_value ` set items \<subseteq> set (Set H)"
proof -
  from assms obtain gs where gs: "map_e (as_GroupElem G) items = Inr gs"
    by (auto simp: generate_def bind_e_eq_Inr)
  with assms obtain st' where st': "generate_loop (AlgSet_by elem gs) = Inr st'"
    and init: "Group_init (AlgSet (map elem st'))
       (new_domains (bin_op G) (AlgSet_mul (AlgSet (map elem st')) (AlgSet (map elem st')))
          (AlgSet (map elem st'))) = Inr H"
    by (auto simp: generate_def bind_e_eq_Inr Let_def split: if_splits)
  have "item_value ` set items \<subseteq> elem ` set gs"
  proof
    fix v assume "v \<in> item_value ` set items"
    then obtain it where it: "it \<in> set items" "v = item_value it" by auto
    from map_e_Inr_all[OF gs it(1)] obtain g where "g \<in> set gs" "as_GroupElem G it = Inr g"
      by blast
    with it as_GroupElem_Inr[of G it g] have "v = elem g" "g \<in> set gs" by simp_all
    then show "v \<in> elem ` set gs" by (rule image_eqI)
  qed
  also have "\<dots> = elem ` set (AlgSet_by elem gs)" by (simp add: keys_AlgSet_by)
  also have "\<dots> \<subseteq> elem ` set st'" by (rule generate_loop_keys_mono[OF st'])
  also have "\<dots> = set (Set H)" using Group_init_InrD(1)[OF init] by simp
  finally show ?thesis .
qed

lemma pick_Inr: "pick A = Inr x \<Longrightarrow> x \<in> set A"
  by (cases A) (simp_all add: pick_def)

text \<open>
  The loop of \<^verbatim>\<open>Group.generators\<close>.  The source keeps \<^verbatim>\<open>H = self.generate(result)\<close>
  in a variable that it refreshes after every \<^verbatim>\<open>append\<close>; the model computes it from
  \<open>result\<close> at the head of each round, which is the same value.
\<close>

function generators_loop :: "'a::linorder Group \<Rightarrow> 'a list \<Rightarrow> error + 'a list" where
  "generators_loop G result =
     (case generate G (map Raw result) of
        Inl err \<Rightarrow> Inl err
      | Inr H \<Rightarrow>
          if Group_len H < Group_len G then
            (case pick (AlgSet_sub (Set G) (Set H)) of
               Inl err \<Rightarrow> Inl err
             | Inr x \<Rightarrow> generators_loop G (result @ [x]))
          else Inr result)"
  by pat_completeness auto
termination
proof (relation "measure (\<lambda>(G, result). card (set (Set G) - set result))")
  show "wf (measure (\<lambda>(G, result). card (set (Set G) - set result)))" by simp
next
  fix G :: "'a Group" and result H x
  assume gen: "generate G (map Raw result) = Inr H"
    and pk: "pick (AlgSet_sub (Set G) (Set H)) = Inr x"
  from generate_contains[OF gen] have sub: "set result \<subseteq> set (Set H)"
    by (simp add: image_image)
  from pick_Inr[OF pk] have x: "x \<in> set (Set G)" "x \<notin> set (Set H)"
    by (simp_all add: AlgSet_sub_def)
  have "set (Set G) - set (result @ [x]) \<subset> set (Set G) - set result"
    using x sub by auto
  then have "card (set (Set G) - set (result @ [x])) < card (set (Set G) - set result)"
    by (intro psubset_card_mono) simp_all
  then show "((G, result @ [x]), (G, result)) \<in>
      measure (\<lambda>(G, result). card (set (Set G) - set result))" by simp
qed

text \<open>\<^verbatim>\<open>Group.generators\<close>.\<close>

definition generators :: "'a::linorder Group \<Rightarrow> error + 'a GroupElem list" where
  "generators G =
     bind_e (generators_loop G [elem (Group_e G)]) (\<lambda>result.
       let result = (if Group_len G \<noteq> 1 then tl result else result)
       in map_e (\<lambda>g. GroupElem_init g G) result)"

text \<open>
  Adding an element from outside to a generated subgroup at least doubles it: the
  subgroup and its translate by the new element are disjoint and of the same size.
\<close>

lemma gen_set_double:
  assumes G: "group_on S m u" and X: "X \<subseteq> S" "X \<noteq> {}" and x: "x \<in> S" "x \<notin> gen_set m X"
  shows "2 * card (gen_set m X) \<le> card (gen_set m (insert x X))"
proof -
  define A where "A = gen_set m X"
  define B where "B = gen_set m (insert x X)"
  have gA: "group_on A m u" unfolding A_def by (rule gen_set_group_on[OF G X])
  have AS: "A \<subseteq> S" unfolding A_def by (rule gen_set_least[OF X(1)]) (rule group_on_closed[OF G])
  have BS: "B \<subseteq> S" unfolding B_def
    by (rule gen_set_least) (use X x group_on_closed[OF G] in auto)
  have finB: "finite B" using BS group_on_finite[OF G] by (rule finite_subset)
  have AB: "A \<subseteq> B" unfolding A_def B_def by (rule gen_set_mono) auto
  have xB: "x \<in> B" unfolding B_def by (rule gen_set.base) simp
  have xAB: "(\<lambda>a. m (x, a)) ` A \<subseteq> B"
    using AB xB unfolding B_def by (auto intro: gen_set.mul)
  have disj: "A \<inter> (\<lambda>a. m (x, a)) ` A = {}"
  proof (rule ccontr)
    assume "A \<inter> (\<lambda>a. m (x, a)) ` A \<noteq> {}"
    then obtain a a' where a: "a \<in> A" "a' \<in> A" "a' = m (x, a)" by auto
    from group_on_inverse[OF gA a(1)] obtain b where b: "b \<in> A" "m (a, b) = u" by blast
    have "x = m (x, m (a, b))" using b x G by (simp add: group_on_right_id)
    also have "\<dots> = m (m (x, a), b)"
      using group_on_assoc[OF G x(1), of a b] a b AS by (simp add: subsetD)
    also have "\<dots> \<in> A" using a b group_on_closed[OF gA] by simp
    finally show False using x by (simp add: A_def)
  qed
  have inj: "inj_on (\<lambda>a. m (x, a)) A"
    by (rule inj_onI) (use group_on_cancel_left[OF G x(1)] AS in blast)
  have "2 * card A = card A + card ((\<lambda>a. m (x, a)) ` A)" using card_image[OF inj] by simp
  also have "\<dots> = card (A \<union> (\<lambda>a. m (x, a)) ` A)"
    using finite_subset[OF AB finB] disj by (simp add: card_Un_disjoint)
  also have "\<dots> \<le> card B" by (rule card_mono[OF finB]) (use AB xAB in auto)
  finally show ?thesis by (simp add: A_def B_def)
qed

lemma floor_log2_bound:
  assumes "2 ^ k \<le> n"
  shows "k \<le> nat \<lfloor>log 2 (real n)\<rfloor>"
proof -
  from assms have "real k \<le> log 2 (real n)" by (rule le_log2_of_power)
  then have "int k \<le> \<lfloor>log 2 (real n)\<rfloor>" by (simp add: le_floor_iff)
  then show ?thesis by simp
qed


lemma generate_Raw:
  assumes G: "valid_Group G" and ne: "result \<noteq> []" and sub: "set result \<subseteq> set (Set G)"
  shows "\<exists>H. generate G (map Raw result) = Inr H \<and> valid_Group H \<and>
     set (Set H) = gen_set (func (bin_op G)) (set result)"
proof -
  have "\<exists>K. generate G (map Raw result) = Inr K \<and> valid_Group K \<and>
     set (Set K) = gen_set (func (bin_op G)) (item_value ` set (map Raw result)) \<and>
     bin_op K = new_domains (bin_op G) (AlgSet_mul (Set K) (Set K)) (Set K) \<and> e K = e G"
    by (rule generate_good[OF G restr_refl[OF G]]) (use ne sub in auto)
  moreover have "item_value ` set (map Raw result) = set result" by (simp add: image_image)
  ultimately show ?thesis by auto
qed

lemma valid_Group_len: "valid_Group G \<Longrightarrow> Group_len G = card (set (Set G))"
  by (simp add: Group_len_def is_AlgSet_length valid_Group_dom(3))

lemma generators_loop_correct:
  assumes G: "valid_Group G"
  shows "set xs \<subseteq> set (Set G) \<Longrightarrow> e G \<notin> set xs \<Longrightarrow>
     2 ^ length xs \<le> card (gen_set (func (bin_op G)) (set (e G # xs))) \<Longrightarrow>
     \<exists>ys. generators_loop G (e G # xs) = Inr (e G # ys) \<and> set ys \<subseteq> set (Set G) \<and>
        e G \<notin> set ys \<and> 2 ^ length ys \<le> card (set (Set G)) \<and>
        gen_set (func (bin_op G)) (set (e G # ys)) = set (Set G)"
proof (induction "card (set (Set G) - set xs)" arbitrary: xs rule: less_induct)
  case less
  define m where "m = func (bin_op G)"
  define S where "S = set (Set G)"
  define result where "result = e G # xs"
  define A where "A = gen_set m (set result)"
  note grp = valid_Group_group_on[OF G, folded m_def S_def]
  have uS: "e G \<in> S" using group_on_id[OF grp] .
  have rS: "set result \<subseteq> S" using less.prems(1) uS by (simp add: result_def S_def)
  from generate_Raw[OF G _ rS[unfolded S_def]] obtain H where
    gen: "generate G (map Raw result) = Inr H" and vH: "valid_Group H"
    and SH: "set (Set H) = A"
    by (auto simp: result_def A_def m_def)
  have gA: "group_on A m (e G)"
    unfolding A_def by (rule gen_set_group_on[OF grp rS]) (simp add: result_def)
  have AS: "A \<subseteq> S" unfolding A_def by (rule gen_set_least[OF rS]) (rule group_on_closed[OF grp])
  have finS: "finite S" by (simp add: S_def)
  have lenH: "Group_len H = card A" using valid_Group_len[OF vH] SH by simp
  have lenG: "Group_len G = card S" using valid_Group_len[OF G] by (simp add: S_def)
  have pow: "2 ^ length xs \<le> card A" using less.prems(3) by (simp add: A_def m_def result_def)
  show ?case
  proof (cases "card A < card S")
    case True
    then have "S - A \<noteq> {}" using AS by auto
    moreover have "set (AlgSet_sub (Set G) (Set H)) = S - A"
      by (auto simp: AlgSet_sub_def SH S_def)
    ultimately have "AlgSet_sub (Set G) (Set H) \<noteq> []" by auto
    then obtain x where pk: "pick (AlgSet_sub (Set G) (Set H)) = Inr x"
      by (cases "AlgSet_sub (Set G) (Set H)") (simp_all add: pick_def)
    from pick_Inr[OF pk] have x: "x \<in> S" "x \<notin> A" by (simp_all add: AlgSet_sub_def SH S_def)
    have xr: "x \<notin> set result" using x(2) by (auto simp: A_def intro: gen_set.base)
    have xe: "x \<noteq> e G" using x(2) group_on_id[OF gA] by auto
    have "card (S - set (xs @ [x])) < card (S - set xs)"
      by (rule psubset_card_mono) (use finS x(1) xr in \<open>auto simp: result_def\<close>)
    moreover have "set (xs @ [x]) \<subseteq> set (Set G)" using less.prems(1) x(1) by (simp add: S_def)
    moreover have "e G \<notin> set (xs @ [x])" using less.prems(2) xe by simp
    moreover have "2 ^ length (xs @ [x]) \<le> card (gen_set (func (bin_op G)) (set (e G # xs @ [x])))"
    proof -
      have "2 * card A \<le> card (gen_set m (insert x (set result)))"
        unfolding A_def by (rule gen_set_double[OF grp rS _ x(1)]) (use x(2) in \<open>simp_all add: result_def A_def\<close>)
      moreover have "insert x (set result) = set (e G # xs @ [x])" by (auto simp: result_def)
      ultimately show ?thesis using pow by (simp add: m_def)
    qed
    ultimately obtain ys where ys: "generators_loop G (e G # xs @ [x]) = Inr (e G # ys)"
      "set ys \<subseteq> set (Set G)" "e G \<notin> set ys" "2 ^ length ys \<le> card (set (Set G))"
      "gen_set (func (bin_op G)) (set (e G # ys)) = set (Set G)"
      using less.hyps[of "xs @ [x]"] unfolding S_def by blast
    have "generators_loop G (e G # xs) = generators_loop G (e G # xs @ [x])"
      using gen pk True by (subst generators_loop.simps) (simp add: result_def lenH lenG)
    with ys show ?thesis by auto
  next
    case False
    then have "A = S" using AS finS by (simp add: card_seteq)
    moreover have "generators_loop G (e G # xs) = Inr (e G # xs)"
      using gen False by (subst generators_loop.simps) (simp add: result_def lenH lenG)
    ultimately show ?thesis
      using less.prems pow by (auto simp: A_def m_def S_def result_def)
  qed
qed


lemma map_e_GroupElem_init:
  "set xs \<subseteq> set (Set G) \<Longrightarrow>
   map_e (\<lambda>g. GroupElem_init g G) xs = Inr (map (\<lambda>x. \<lparr>elem = x, group = G\<rparr>) xs)"
  by (rule map_e_pure) (auto simp: GroupElem_init_def)

text \<open>
  C5.  For every valid group \<open>G\<close>, \<^verbatim>\<open>G.generators()\<close> returns a list of elements
  of \<open>G\<close> of length at most \<open>\<lfloor>log\<^sub>2 |G|\<rfloor> + 1\<close>; \<^verbatim>\<open>G.generate\<close> of that list
  returns a subgroup of the same order as \<open>G\<close>; and the identity is not in the list
  unless \<open>G\<close> has order 1.
\<close>

theorem generators_bound_and_span:
  assumes G: "valid_Group G"
  shows "\<exists>gens. generators G = Inr gens \<and> set gens \<subseteq> set (group_elems G) \<and>
     length gens \<le> nat \<lfloor>log 2 (real (Group_len G))\<rfloor> + 1 \<and>
     (\<exists>H. generate G (map Wrapped gens) = Inr H \<and> Group_len H = Group_len G) \<and>
     (Group_len G \<noteq> 1 \<longrightarrow> e G \<notin> elem ` set gens)"
proof -
  define m where "m = func (bin_op G)"
  define S where "S = set (Set G)"
  define W where "W = (\<lambda>x. \<lparr>elem = x, group = G\<rparr>)"
  note grp = valid_Group_group_on[OF G, folded m_def S_def]
  note alg = valid_Group_dom(3)[OF G]
  have uS: "e G \<in> S" using group_on_id[OF grp] .
  have finS: "finite S" by (simp add: S_def)
  have lenG: "Group_len G = card S" using valid_Group_len[OF G] by (simp add: S_def)
  have one: "gen_set m {e G} = {e G}"
    by (rule gen_set_closed_id) (use group_on_left_id[OF grp uS] in simp)
  have "\<exists>ys. generators_loop G (e G # []) = Inr (e G # ys) \<and> set ys \<subseteq> set (Set G) \<and>
        e G \<notin> set ys \<and> 2 ^ length ys \<le> card (set (Set G)) \<and>
        gen_set (func (bin_op G)) (set (e G # ys)) = set (Set G)"
    by (rule generators_loop_correct[OF G]) (use one in \<open>simp_all add: m_def\<close>)
  then obtain ys where loop: "generators_loop G [e G] = Inr (e G # ys)"
    and ysS: "set ys \<subseteq> S" and uys: "e G \<notin> set ys" and pow: "2 ^ length ys \<le> card S"
    and span: "gen_set m (insert (e G) (set ys)) = S"
    by (auto simp: m_def S_def)
  have wrapped: "set (map W zs) \<subseteq> set (group_elems G)" if "set zs \<subseteq> S" for zs
    using that by (auto simp: set_group_elems[OF alg] W_def S_def)
  have gen_ok: "\<exists>H. generate G (map Wrapped (map W zs)) = Inr H \<and> Group_len H = Group_len G"
    if zs: "set zs \<subseteq> S" "zs \<noteq> []" "gen_set m (set zs) = S" for zs
  proof -
    have "\<forall>it\<in>set (map Wrapped (map W zs)). own_item G it" using wrapped[OF zs(1)] by auto
    from generate_own[OF G _ this] zs(2) obtain H where H: "generate G (map Wrapped (map W zs)) = Inr H"
      "valid_Group H" "set (Set H) = gen_set m (item_value ` set (map Wrapped (map W zs)))"
      unfolding m_def by auto
    have "item_value ` set (map Wrapped (map W zs)) = set zs" by (auto simp: W_def image_image)
    with H(3) zs(3) have "set (Set H) = S" by simp
    then have "Group_len H = Group_len G" using valid_Group_len[OF H(2)] lenG by simp
    with H(1) show ?thesis by blast
  qed
  show ?thesis
  proof (cases "Group_len G = 1")
    case True
    have "ys = []"
    proof (cases ys)
      case Nil
      then show ?thesis .
    next
      case (Cons a list)
      have "(1::nat) \<le> 2 ^ length list" by simp
      then have "(2::nat) \<le> 2 ^ length ys" by (simp add: Cons)
      with pow lenG True show ?thesis by simp
    qed
    with loop True uS have gens: "generators G = Inr (map W [e G])"
      by (simp add: generators_def Group_e_def GroupElem_init_def W_def S_def)
    have "gen_set m (set [e G]) = S" using span \<open>ys = []\<close> by simp
    from gen_ok[OF _ _ this] uS
    have "\<exists>H. generate G (map Wrapped (map W [e G])) = Inr H \<and> Group_len H = Group_len G" by simp
    with gens wrapped[of "[e G]"] uS True show ?thesis by (intro exI[of _ "map W [e G]"]) simp
  next
    case False
    have m_e: "map_e (\<lambda>g. GroupElem_init g G) ys = Inr (map W ys)"
      unfolding W_def by (rule map_e_GroupElem_init) (use ysS in \<open>simp add: S_def\<close>)
    with loop False have gens: "generators G = Inr (map W ys)"
      by (simp add: generators_def Group_e_def)
    have ne: "ys \<noteq> []"
    proof
      assume "ys = []"
      with span one have "S = {e G}" by simp
      with lenG False show False by simp
    qed
    have ysspan: "gen_set m (set ys) = S"
    proof
      show "gen_set m (set ys) \<subseteq> S"
        by (rule gen_set_least[OF ysS]) (rule group_on_closed[OF grp])
      have "set ys \<noteq> {}" using ne by simp
      from gen_set_group_on[OF grp ysS this] have "e G \<in> gen_set m (set ys)"
        by (rule group_on_id)
      then have "insert (e G) (set ys) \<subseteq> gen_set m (set ys)" by (auto intro: gen_set.base)
      then have "gen_set m (insert (e G) (set ys)) \<subseteq> gen_set m (set ys)"
        by (rule gen_set_least) (rule gen_set.mul)
      then show "S \<subseteq> gen_set m (set ys)" by (simp add: span)
    qed
    have "length ys \<le> nat \<lfloor>log 2 (real (Group_len G))\<rfloor>"
      by (rule floor_log2_bound) (use pow lenG in simp)
    moreover have "e G \<notin> elem ` set (map W ys)" using uys by (auto simp: W_def)
    ultimately show ?thesis
      using gens wrapped[OF ysS] gen_ok[OF ysS ne ysspan]
      by (intro exI[of _ "map W ys"]) simp
  qed
qed

theorem generators_bound_and_span_witness:
  "valid_Group (Zn_Group 4) \<and>
   (\<exists>gens. generators (Zn_Group 4) = Inr gens \<and> set gens \<subseteq> set (group_elems (Zn_Group 4)) \<and>
     length gens \<le> nat \<lfloor>log 2 (real (Group_len (Zn_Group 4)))\<rfloor> + 1 \<and>
     (\<exists>H. generate (Zn_Group 4) (map Wrapped gens) = Inr H \<and> Group_len H = Group_len (Zn_Group 4)) \<and>
     e (Zn_Group 4) \<notin> elem ` set gens) \<and> Group_len (Zn_Group 4) = 4"
proof -
  have v: "valid_Group (Zn_Group 4)" by (rule Zn_Group_valid) simp
  have l: "Group_len (Zn_Group 4) = 4" by (simp add: Group_len_def Zn_Group_def)
  from generators_bound_and_span[OF v] v l show ?thesis by auto
qed

end
